theory Spec2Isabelle
  imports Complex_Main "HOL-Library.Word"
begin

section \<open>Numbers and arrays of the scene code\<close>

text \<open>
  The scene code computes with JavaScript numbers. They are modelled as exact reals, with
  one extra value for \<open>NaN\<close>, which is what a \<open>Float32Array\<close> stores when the code
  writes \<open>undefined\<close> into it. The arithmetic of the code on doubles is modelled by exact
  arithmetic. The rounding of a number to 32 bits when a \<open>Float32Array\<close> stores it is
  modelled where the geometries are built (\<open>fround\<close> below): for the texture coordinates
  and for the sampled elevations.
\<close>

datatype jsnum = Num real | NaN

text \<open>
  Reading an array outside its bounds gives \<open>undefined\<close> (here \<open>None\<close>); writing a typed
  array outside its bounds does nothing; a typed array of floats turns \<open>undefined\<close> into
  \<open>NaN\<close> when it stores it.
\<close>

definition arr_get :: "'a list \<Rightarrow> nat \<Rightarrow> 'a option" where
  "arr_get xs i = (if i < length xs then Some (xs ! i) else None)"

definition arr_get_int :: "'a list \<Rightarrow> int \<Rightarrow> 'a option" where
  "arr_get_int xs i = (if i < 0 then None else arr_get xs (nat i))"

definition f32_set :: "jsnum list \<Rightarrow> nat \<Rightarrow> jsnum \<Rightarrow> jsnum list" where
  "f32_set xs i v = (if i < length xs then xs[i := v] else xs)"

definition toFloat :: "jsnum option \<Rightarrow> jsnum" where
  "toFloat v = (case v of None \<Rightarrow> NaN | Some x \<Rightarrow> x)"

text \<open>
  A vertex buffer holds three numbers per vertex, row by row, \<open>W + 1\<close> vertices per row.
  The elevation of the vertex in column \<open>x\<close> of row \<open>y\<close> is the third of its three numbers.
\<close>

definition elevation :: "nat \<Rightarrow> jsnum list \<Rightarrow> nat \<Rightarrow> nat \<Rightarrow> jsnum option" where
  "elevation W g x y = arr_get g (((W + 1) * y + x) * 3 + 2)"

section \<open>Zipping up the gap between the two plane geometries\<close>

text \<open>
  \<^verbatim>\<open>
  for (let index = 0; index <= terrainWidth; index++) {
    let bottomOffset = (terrainWidth + 1) * terrainHeight
    geometryPositionsArray[1][(bottomOffset + index) * 3 + 2] = geometryPositionsArray[0][index * 3 + 2]
    geometryPositionsArray[0][(bottomOffset + index) * 3 + 2] = geometryPositionsArray[1][index * 3 + 2]
  }
  \<close>
  The pair \<open>(g0, g1)\<close> is \<open>geometryPositionsArray\<close>; \<open>W\<close> and \<open>H\<close> are \<open>terrainWidth\<close> and
  \<open>terrainHeight\<close>.
\<close>

definition terrainWidth :: nat where
  "terrainWidth = 30"

definition terrainHeight :: nat where
  "terrainHeight = 30"

definition stitchStep :: "nat \<Rightarrow> nat \<Rightarrow> nat \<Rightarrow> jsnum list \<times> jsnum list \<Rightarrow> jsnum list \<times> jsnum list" where
  "stitchStep W H index g =
     (let bottomOffset = (W + 1) * H;
          g0 = fst g;
          g1 = f32_set (snd g) ((bottomOffset + index) * 3 + 2) (toFloat (arr_get g0 (index * 3 + 2)));
          g0' = f32_set g0 ((bottomOffset + index) * 3 + 2) (toFloat (arr_get g1 (index * 3 + 2)))
      in (g0', g1))"

function stitchLoop :: "nat \<Rightarrow> nat \<Rightarrow> nat \<Rightarrow> jsnum list \<times> jsnum list \<Rightarrow> jsnum list \<times> jsnum list" where
  "stitchLoop W H index g =
     (if index \<le> W then stitchLoop W H (index + 1) (stitchStep W H index g) else g)"
  by pat_completeness auto
termination
  by (relation "measure (\<lambda>(W, H, index, g). W + 1 - index)") auto

declare stitchLoop.simps [simp del]

definition stitch :: "nat \<Rightarrow> nat \<Rightarrow> jsnum list \<times> jsnum list \<Rightarrow> jsnum list \<times> jsnum list" where
  "stitch W H g = stitchLoop W H 0 g"

text \<open>
  The same loop with the two assignments of its body in the other order: first the
  first geometry's bottom row from the second geometry's top row, then the reverse.
\<close>

definition stitchStepSwapped :: "nat \<Rightarrow> nat \<Rightarrow> nat \<Rightarrow> jsnum list \<times> jsnum list \<Rightarrow> jsnum list \<times> jsnum list" where
  "stitchStepSwapped W H index g =
     (let bottomOffset = (W + 1) * H;
          g1 = snd g;
          g0 = f32_set (fst g) ((bottomOffset + index) * 3 + 2) (toFloat (arr_get g1 (index * 3 + 2)));
          g1' = f32_set g1 ((bottomOffset + index) * 3 + 2) (toFloat (arr_get g0 (index * 3 + 2)))
      in (g0, g1'))"

function stitchLoopSwapped :: "nat \<Rightarrow> nat \<Rightarrow> nat \<Rightarrow> jsnum list \<times> jsnum list \<Rightarrow> jsnum list \<times> jsnum list" where
  "stitchLoopSwapped W H index g =
     (if index \<le> W then stitchLoopSwapped W H (index + 1) (stitchStepSwapped W H index g) else g)"
  by pat_completeness auto
termination
  by (relation "measure (\<lambda>(W, H, index, g). W + 1 - index)") auto

declare stitchLoopSwapped.simps [simp del]

definition stitchSwapped :: "nat \<Rightarrow> nat \<Rightarrow> jsnum list \<times> jsnum list \<Rightarrow> jsnum list \<times> jsnum list" where
  "stitchSwapped W H g = stitchLoopSwapped W H 0 g"

text \<open>
  One direction of the copy alone, reading from a snapshot \<open>src\<close> that is never written:
  the bottom row of \<open>dst\<close> receives the top row of \<open>src\<close>.
\<close>

function copyTopToBottom :: "nat \<Rightarrow> nat \<Rightarrow> jsnum list \<Rightarrow> nat \<Rightarrow> jsnum list \<Rightarrow> jsnum list" where
  "copyTopToBottom W H src index dst =
     (if index \<le> W
      then copyTopToBottom W H src (index + 1)
             (f32_set dst (((W + 1) * H + index) * 3 + 2) (toFloat (arr_get src (index * 3 + 2))))
      else dst)"
  by pat_completeness auto
termination
  by (relation "measure (\<lambda>(W, H, src, index, dst). W + 1 - index)") auto

declare copyTopToBottom.simps [simp del]

section \<open>The heightmap sampler\<close>

text \<open>
  The colour data of the heightmap as the canvas returns it: \<open>width\<close> and \<open>height\<close> in
  pixels and \<open>data\<close>, four bytes (red, green, blue, alpha) per pixel, row by row from the
  top row down.
\<close>

record imageData =
  width :: nat
  height :: nat
  data :: "8 word list"

text \<open>
  \<open>Math.round\<close> rounds to the nearest integer, a half towards plus infinity.
\<close>

definition Math_round :: "real \<Rightarrow> int" where
  "Math_round x = \<lfloor>x + 1 / 2\<rfloor>"

definition displacementScale :: real where
  "displacementScale = 5"

text \<open>
  \<^verbatim>\<open>
  export function getZFromImageDataPoint(imageData, u, v, cvWidth, cvHeight) {
    const mapWidth = cvWidth
    const mapHeight = cvHeight
    const displacementScale = 5
    var x = Math.round(u * (mapWidth - 1))
    var y = Math.round((1 - v) * (mapHeight - 1))
    var index = (y * imageData.width + x) * 4
    var red = imageData.data[index]
    return red / 255 * displacementScale
  }
  \<close>
  \<open>sampleIndex\<close> is the value of \<open>index\<close>. A read outside \<open>data\<close> gives \<open>undefined\<close>, and the
  function then returns \<open>NaN\<close>.
\<close>

definition sampleIndex :: "imageData \<Rightarrow> real \<Rightarrow> real \<Rightarrow> int \<Rightarrow> int \<Rightarrow> int" where
  "sampleIndex imageData u v cvWidth cvHeight =
     (let mapWidth = cvWidth;
          mapHeight = cvHeight;
          x = Math_round (u * real_of_int (mapWidth - 1));
          y = Math_round ((1 - v) * real_of_int (mapHeight - 1))
      in (y * int (width imageData) + x) * 4)"

definition getZFromImageDataPoint :: "imageData \<Rightarrow> real \<Rightarrow> real \<Rightarrow> int \<Rightarrow> int \<Rightarrow> jsnum" where
  "getZFromImageDataPoint imageData u v cvWidth cvHeight =
     (let index = sampleIndex imageData u v cvWidth cvHeight
      in case arr_get_int (data imageData) index of
           None \<Rightarrow> NaN
         | Some red \<Rightarrow> Num (real (unat red) / 255 * displacementScale))"



text \<open>
  A heightmap of three by two pixels; only the red bytes differ.
\<close>

definition heightmap3x2 :: imageData where
  "heightmap3x2 = \<lparr>width = 3, height = 2,
     data = [10, 0, 0, 255, 20, 0, 0, 255, 30, 0, 0, 255,
             40, 0, 0, 255, 51, 0, 0, 255, 255, 0, 0, 255]\<rparr>"

section \<open>Numbers stored with 32 bits\<close>

text \<open>
  A \<open>Float32Array\<close> stores the nearest number with a significand of 24 bits, a tie going
  to the even significand (\<open>Math.fround\<close>). For a magnitude \<open>a\<close> below \<open>2\<close>, \<open>binade a 0\<close> is
  the number of doublings that bring \<open>a\<close> to \<open>1\<close> or above, at most \<open>126\<close> (smaller numbers
  are subnormal and share the spacing \<open>2 ^ - 149\<close>); for a magnitude from \<open>2\<close> on,
  \<open>halvings a 0\<close> is the number of halvings that bring it below \<open>2\<close>. \<open>f32_ulp a\<close> is the
  spacing of the 32-bit numbers around \<open>a\<close>. Magnitudes of \<open>2 ^ 128\<close> and more, which are stored
  as infinite, do not occur in the scene and are not modelled.
\<close>

definition roundHalfEven :: "real \<Rightarrow> int" where
  "roundHalfEven r =
     (let f = \<lfloor>r\<rfloor>
      in if r - of_int f < 1 / 2 then f
         else if 1 / 2 < r - of_int f then f + 1
         else if even f then f else f + 1)"

function binade :: "real \<Rightarrow> nat \<Rightarrow> nat" where
  "binade a k = (if 1 \<le> a * 2 ^ k \<or> 126 \<le> k then k else binade a (k + 1))"
  by pat_completeness auto
termination
  by (relation "measure (\<lambda>(a, k). 126 - k)") auto

declare binade.simps [simp del]

function halvings :: "real \<Rightarrow> nat \<Rightarrow> nat" where
  "halvings a k = (if a < 2 * 2 ^ k \<or> 127 \<le> k then k else halvings a (k + 1))"
  by pat_completeness auto
termination
  by (relation "measure (\<lambda>(a, k). 127 - k)") auto

declare halvings.simps [simp del]

definition f32_ulp :: "real \<Rightarrow> real" where
  "f32_ulp a = (if 2 \<le> a then 2 ^ halvings a 0 / 2 ^ 23 else 1 / 2 ^ (binade a 0 + 23))"

definition fround :: "real \<Rightarrow> real" where
  "fround x = (let a = \<bar>x\<bar>; p = f32_ulp a in sgn x * (of_int (roundHalfEven (a / p)) * p))"

definition toFloat32 :: "jsnum \<Rightarrow> jsnum" where
  "toFloat32 v = (case v of Num z \<Rightarrow> Num (fround z) | NaN \<Rightarrow> NaN)"

section \<open>Building the two plane geometries\<close>

text \<open>
  Modelled from the spec: the plane geometry constructor and the application of a matrix
  to a geometry belong to the rendering library and are not part of the source. The
  constructor gives ``a standard flat grid of \<open>(cellsX + 1) * (cellsY + 1)\<close> vertices with UVs
  in row-major order'': the vertex in column \<open>ix\<close> of row \<open>iy\<close> has the texture coordinates
  \<open>u = ix / gridX\<close> and \<open>v = 1 - iy / gridY\<close>, and the position
  \<open>(ix * (width / gridX) - width / 2, - (iy * (height / gridY) - height / 2), 0)\<close>, where the
  scene passes the same number for the width and for the number of segments. Both lists
  are indexed by \<open>k\<close>, two respectively three numbers per vertex. They are meant for
  \<open>gridX\<close> and \<open>gridY\<close> of at least one. The texture coordinates are held in a
  \<open>Float32Array\<close>, so the code reads them rounded to 32 bits: \<open>1 / 3\<close> is read as
  \<open>11184811 / 33554432\<close>. (The library divides in doubles before it stores; for grids of
  a few cells the double lies on the same side of every 32-bit rounding boundary as the
  exact quotient.) The positions of the flat plane are halves of integers and are stored
  as they are.
\<close>

definition planeUVs :: "nat \<Rightarrow> nat \<Rightarrow> real list" where
  "planeUVs gridX gridY =
     map (\<lambda>k. let ix = (k div 2) mod (gridX + 1);
                   iy = (k div 2) div (gridX + 1)
               in if k mod 2 = 0 then fround (real ix / real gridX)
                  else fround (1 - real iy / real gridY))
       [0..<2 * ((gridX + 1) * (gridY + 1))]"

definition planePositions :: "nat \<Rightarrow> nat \<Rightarrow> jsnum list" where
  "planePositions gridX gridY =
     map (\<lambda>k. let ix = (k div 3) mod (gridX + 1);
                   iy = (k div 3) div (gridX + 1)
               in if k mod 3 = 0 then Num (real ix * (real gridX / real gridX) - real gridX / 2)
                  else if k mod 3 = 1 then Num (- (real iy * (real gridY / real gridY) - real gridY / 2))
                  else Num 0)
       [0..<3 * ((gridX + 1) * (gridY + 1))]"

text \<open>
  \<^verbatim>\<open>
  for (let index = 0; index < geometryUVs.length / 2; index++) {
    let vertexU = geometryUVs[index * 2]
    let vertexV = geometryUVs[index * 2 + 1]
    let terrainHeight = getZFromImageDataPoint(hm_imageData, (i == 0 ? vertexU : 1 - vertexU),
                                               vertexV, canvas.width, canvas.height)
    geometryPositions[index * 3 + 2] = terrainHeight
  }
  \<close>
  \<open>i\<close> is the counter of the enclosing loop, \<open>0\<close> for the first geometry and \<open>1\<close> for the
  second. The canvas has the size of the image and the image data is read from the
  whole canvas, so \<open>canvas.width\<close> and \<open>canvas.height\<close> are the width and height of
  \<open>hm_imageData\<close>. A texture coordinate read outside the list is \<open>undefined\<close> and makes
  the sampled value \<open>NaN\<close>. \<open>geometryPositions\<close> is a \<open>Float32Array\<close>: it stores the sampled
  value rounded to 32 bits.
\<close>

definition displaceStep :: "imageData \<Rightarrow> nat \<Rightarrow> real list \<Rightarrow> nat \<Rightarrow> jsnum list \<Rightarrow> jsnum list" where
  "displaceStep hm_imageData i geometryUVs index geometryPositions =
     f32_set geometryPositions (index * 3 + 2)
       (toFloat32
          (case (arr_get geometryUVs (index * 2), arr_get geometryUVs (index * 2 + 1)) of
             (Some vertexU, Some vertexV) \<Rightarrow>
               getZFromImageDataPoint hm_imageData (if i = 0 then vertexU else 1 - vertexU) vertexV
                 (int (width hm_imageData)) (int (height hm_imageData))
           | _ \<Rightarrow> NaN))"

function displaceLoop :: "imageData \<Rightarrow> nat \<Rightarrow> real list \<Rightarrow> nat \<Rightarrow> jsnum list \<Rightarrow> jsnum list" where
  "displaceLoop hm_imageData i geometryUVs index geometryPositions =
     (if 2 * index < length geometryUVs
      then displaceLoop hm_imageData i geometryUVs (index + 1)
             (displaceStep hm_imageData i geometryUVs index geometryPositions)
      else geometryPositions)"
  by pat_completeness auto
termination
  by (relation "measure (\<lambda>(hm, i, uvs, index, ps). length uvs - 2 * index)") auto

declare displaceLoop.simps [simp del]

text \<open>
  Modelled from the spec: the shear matrix and its application to a geometry belong to
  the rendering library and are not part of the source; the shear is ``purely a visual
  skew'' of the plane.
  \<^verbatim>\<open>
  const shearMtx = new THREE.Matrix4()
  shearMtx.makeShear(-0.5, 0, 0, 0, 0, 0)
  planeGeometry.applyMatrix4(shearMtx)
  \<close>
  The matrix has a single entry off the diagonal, which mixes the first two coordinates
  of a vertex; its third row is \<open>(0, 0, 1, 0)\<close>. The new first two coordinates are the
  parameter \<open>shearXY\<close>; the third coordinate is kept. The matrix is applied to whole
  vertices, and a vertex with a \<open>NaN\<close> coordinate becomes \<open>NaN\<close> in all three.
\<close>

definition applyShear :: "(real \<Rightarrow> real \<Rightarrow> real \<Rightarrow> real \<times> real) \<Rightarrow> jsnum list \<Rightarrow> jsnum list" where
  "applyShear shearXY ps =
     map (\<lambda>k. if length ps div 3 \<le> k div 3 then ps ! k
               else (case (ps ! (k div 3 * 3), ps ! (k div 3 * 3 + 1), ps ! (k div 3 * 3 + 2)) of
                       (Num x, Num y, Num z) \<Rightarrow>
                         (if k mod 3 = 0 then Num (fst (shearXY x y z))
                          else if k mod 3 = 1 then Num (snd (shearXY x y z))
                          else Num z)
                     | _ \<Rightarrow> NaN))
       [0..<length ps]"

text \<open>
  One pass of the loop that builds the geometries: the plane of \<open>W\<close> by \<open>H\<close> cells, its
  elevations taken from the heightmap, then the shear. The result is
  \<open>geometryPositionsArray[i]\<close> before the seam is closed.
\<close>

definition buildGeometryPositions ::
    "(real \<Rightarrow> real \<Rightarrow> real \<Rightarrow> real \<times> real) \<Rightarrow> imageData \<Rightarrow> nat \<Rightarrow> nat \<Rightarrow> nat \<Rightarrow> jsnum list" where
  "buildGeometryPositions shearXY hm_imageData i W H =
     applyShear shearXY (displaceLoop hm_imageData i (planeUVs W H) 0 (planePositions W H))"

text \<open>
  For the examples: a shear of the first two coordinates, and a heightmap of seven by
  one pixels that is black but for its sixth pixel.
\<close>

definition shearByHalf :: "real \<Rightarrow> real \<Rightarrow> real \<Rightarrow> real \<times> real" where
  "shearByHalf x y z = (x, y - x / 2)"

definition heightmap7x1 :: imageData where
  "heightmap7x1 = \<lparr>width = 7, height = 1,
     data = [0, 0, 0, 255, 0, 0, 0, 255, 0, 0, 0, 255, 0, 0, 0, 255,
             0, 0, 0, 255, 255, 255, 255, 255, 0, 0, 0, 255]\<rparr>"

text \<open>
  For the proofs, on a grid of \<open>30\<close> cells across: the rounding errors of the texture
  coordinates of the columns \<open>k\<close> and \<open>30 - k\<close> are below \<open>1 / 30000000\<close>, and for an odd \<open>k\<close>
  they do not have the same sign.
\<close>

definition mirrorSafe :: "nat \<Rightarrow> bool" where
  "mirrorSafe k =
     (let a = fround (real k / 30) - real k / 30;
          b = fround (real (30 - k) / 30) - real (30 - k) / 30
      in \<bar>a\<bar> * 30000000 < 1 \<and> \<bar>b\<bar> * 30000000 < 1 \<and> (odd k \<longrightarrow> (a \<le> 0 \<longleftrightarrow> 0 \<le> b)))"

section \<open>The grid lines\<close>

text \<open>
  \<^verbatim>\<open>
  for (let row = 0; row < terrainHeight; row++) {
    let isEvenRow = row % 2 == 0
    for (let col = (isEvenRow ? 0 : (terrainWidth - 1)); isEvenRow ? (col < terrainWidth) : (col >= 0);
         isEvenRow ? col++ : col--) {
      for (let point = (isEvenRow ? 0 : 3); isEvenRow ? (point < 4) : (point >= 0);
           isEvenRow ? point++ : point--) {
        let mappedIndex
        let rowOffset = row * (terrainWidth + 1)
        if (point < 2) {
          mappedIndex = rowOffset + col + point
        } else {
          mappedIndex = rowOffset + col + point + terrainWidth - 1
        }
        linePositions.push(geometryPositionsArray[i][mappedIndex * 3])
        linePositions.push(geometryPositionsArray[i][mappedIndex * 3 + 1])
        linePositions.push(geometryPositionsArray[i][mappedIndex * 3 + 2])
      }
    }
  }
  \<close>
  The counters \<open>col\<close> and \<open>point\<close> run below zero to end their loops, so they are integers.
  The three loops collect, in order, the value of \<open>mappedIndex\<close> of every pass of the
  innermost loop (\<open>lineIndices\<close>); \<open>linePositions\<close> is then the three numbers pushed for
  each of them, in the same order. The pushes do not influence the loops.
\<close>

definition mappedIndex :: "nat \<Rightarrow> nat \<Rightarrow> int \<Rightarrow> int \<Rightarrow> int" where
  "mappedIndex W row col point =
     (let rowOffset = int row * (int W + 1)
      in if point < 2 then rowOffset + col + point
         else rowOffset + col + point + int W - 1)"

function pointLoop :: "nat \<Rightarrow> nat \<Rightarrow> bool \<Rightarrow> int \<Rightarrow> int \<Rightarrow> int list \<Rightarrow> int list" where
  "pointLoop W row isEvenRow col point acc =
     (if (if isEvenRow then point < 4 else point \<ge> 0)
      then pointLoop W row isEvenRow col (if isEvenRow then point + 1 else point - 1)
             (acc @ [mappedIndex W row col point])
      else acc)"
  by pat_completeness auto
termination
  by (relation "measure (\<lambda>(W, row, isEvenRow, col, point, acc).
        if isEvenRow then nat (4 - point) else nat (point + 1))") auto

declare pointLoop.simps [simp del]

function colLoop :: "nat \<Rightarrow> nat \<Rightarrow> bool \<Rightarrow> int \<Rightarrow> int list \<Rightarrow> int list" where
  "colLoop W row isEvenRow col acc =
     (if (if isEvenRow then col < int W else col \<ge> 0)
      then colLoop W row isEvenRow (if isEvenRow then col + 1 else col - 1)
             (pointLoop W row isEvenRow col (if isEvenRow then 0 else 3) acc)
      else acc)"
  by pat_completeness auto
termination
  by (relation "measure (\<lambda>(W, row, isEvenRow, col, acc).
        if isEvenRow then nat (int W - col) else nat (col + 1))") auto

declare colLoop.simps [simp del]

function rowLoop :: "nat \<Rightarrow> nat \<Rightarrow> nat \<Rightarrow> int list \<Rightarrow> int list" where
  "rowLoop W H row acc =
     (if row < H
      then (let isEvenRow = (row mod 2 = 0)
            in rowLoop W H (row + 1)
                 (colLoop W row isEvenRow (if isEvenRow then 0 else int W - 1) acc))
      else acc)"
  by pat_completeness auto
termination
  by (relation "measure (\<lambda>(W, H, row, acc). H - row)") auto

declare rowLoop.simps [simp del]

definition lineIndices :: "nat \<Rightarrow> nat \<Rightarrow> int list" where
  "lineIndices W H = rowLoop W H 0 []"

definition linePositions :: "jsnum list \<Rightarrow> nat \<Rightarrow> nat \<Rightarrow> jsnum option list" where
  "linePositions geometryPositions W H =
     concat (map (\<lambda>mappedIndex.
                    [arr_get_int geometryPositions (mappedIndex * 3),
                     arr_get_int geometryPositions (mappedIndex * 3 + 1),
                     arr_get_int geometryPositions (mappedIndex * 3 + 2)])
               (lineIndices W H))"

text \<open>
  The vertex with index \<open>m\<close> of a grid with \<open>W + 1\<close> vertices per row lies in row
  \<open>m div (W + 1)\<close> and column \<open>m mod (W + 1)\<close>. Two vertices are adjacent when neither
  their rows nor their columns differ by more than one.
\<close>

definition vertexRow :: "nat \<Rightarrow> int \<Rightarrow> int" where
  "vertexRow W m = m div (int W + 1)"

definition vertexCol :: "nat \<Rightarrow> int \<Rightarrow> int" where
  "vertexCol W m = m mod (int W + 1)"

definition adjacent :: "nat \<Rightarrow> int \<Rightarrow> int \<Rightarrow> bool" where
  "adjacent W a b \<longleftrightarrow>
     \<bar>vertexRow W a - vertexRow W b\<bar> \<le> 1 \<and> \<bar>vertexCol W a - vertexCol W b\<bar> \<le> 1"

text \<open>
  The indices of the vertices of a grid of \<open>W\<close> by \<open>H\<close> cells.
\<close>

definition gridVertex :: "nat \<Rightarrow> nat \<Rightarrow> int \<Rightarrow> bool" where
  "gridVertex W H m \<longleftrightarrow> 0 \<le> m \<and> m < (int W + 1) * (int H + 1)"

text \<open>
  The same path written by rows and cells, for the proofs: the four corners of a cell
  in the order of an even or an odd row, the last \<open>n\<close> cells of an even row, the first
  \<open>n\<close> cells of an odd row taken from the right, a whole row, and the last \<open>n\<close> rows.
\<close>

definition vertexIndex :: "nat \<Rightarrow> nat \<Rightarrow> int \<Rightarrow> int" where
  "vertexIndex W r c = int r * (int W + 1) + c"

definition cellPoints :: "nat \<Rightarrow> nat \<Rightarrow> bool \<Rightarrow> int \<Rightarrow> int list" where
  "cellPoints W row isEvenRow col =
     (if isEvenRow
      then [vertexIndex W row col, vertexIndex W row (col + 1),
            vertexIndex W (row + 1) col, vertexIndex W (row + 1) (col + 1)]
      else [vertexIndex W (row + 1) (col + 1), vertexIndex W (row + 1) col,
            vertexIndex W row (col + 1), vertexIndex W row col])"

fun evenCells :: "nat \<Rightarrow> nat \<Rightarrow> nat \<Rightarrow> int list" where
  "evenCells W row 0 = []"
| "evenCells W row (Suc n) = cellPoints W row True (int W - int (Suc n)) @ evenCells W row n"

fun oddCells :: "nat \<Rightarrow> nat \<Rightarrow> nat \<Rightarrow> int list" where
  "oddCells W row 0 = []"
| "oddCells W row (Suc n) = cellPoints W row False (int n) @ oddCells W row n"

definition rowPath :: "nat \<Rightarrow> nat \<Rightarrow> int list" where
  "rowPath W row = (if row mod 2 = 0 then evenCells W row W else oddCells W row W)"

fun rowsCells :: "nat \<Rightarrow> nat \<Rightarrow> nat \<Rightarrow> int list" where
  "rowsCells W H 0 = []"
| "rowsCells W H (Suc n) = rowPath W (H - Suc n) @ rowsCells W H n"

section \<open>The tiles and their animation\<close>

text \<open>
  Of a mesh or a line of the scene the model keeps the position and the rotation about
  the first axis, the fields the code sets. \<open>meshGroup\<close> and \<open>lineGroup\<close> are the two arrays
  of the application object.
\<close>

record object3D =
  position_x :: real
  position_y :: real
  position_z :: real
  rotation_x :: real

record app =
  meshGroup :: "object3D list"
  lineGroup :: "object3D list"

definition numOfMeshSets :: nat where
  "numOfMeshSets = 6"

text \<open>
  \<^verbatim>\<open>
  for (let i = 0; i < numOfMeshSets; i++) {
    let mesh = new THREE.Mesh(planeGeometries[i % 2], meshMaterial)
    let line = new Line2(lineGeometries[i % 2], lineMaterial)
    mesh.position.set(0, -1.5, -terrainHeight * i)
    mesh.rotation.x -= Math.PI / 2
    line.position.set(0, -1.5, -terrainHeight * i)
    line.rotation.x -= Math.PI / 2
    this.meshGroup.push(mesh)
    this.lineGroup.push(line)
  }
  \<close>
  A new object has rotation \<open>0\<close>.
\<close>

function createLoop :: "nat \<Rightarrow> app \<Rightarrow> app" where
  "createLoop i a =
     (if i < numOfMeshSets
      then (let mesh = \<lparr>position_x = 0, position_y = - 1.5,
                         position_z = - real terrainHeight * real i, rotation_x = 0 - pi / 2\<rparr>;
                line = \<lparr>position_x = 0, position_y = - 1.5,
                         position_z = - real terrainHeight * real i, rotation_x = 0 - pi / 2\<rparr>
            in createLoop (i + 1) (a\<lparr>meshGroup := meshGroup a @ [mesh], lineGroup := lineGroup a @ [line]\<rparr>))
      else a)"
  by pat_completeness auto
termination
  by (relation "measure (\<lambda>(i, a). numOfMeshSets - i)") auto

declare createLoop.simps [simp del]

definition createTiles :: app where
  "createTiles = createLoop 0 \<lparr>meshGroup = [], lineGroup = []\<rparr>"

text \<open>
  \<^verbatim>\<open>
  updateScene(interval, elapsed) {
    for (let i = 0; i < numOfMeshSets; i++) {
      this.meshGroup[i].position.z += interval * params.speed
      this.lineGroup[i].position.z += interval * params.speed
      if (this.meshGroup[i].position.z >= terrainHeight) {
        this.meshGroup[i].position.z -= numOfMeshSets * terrainHeight
        this.lineGroup[i].position.z -= numOfMeshSets * terrainHeight
      }
    }
  }
  \<close>
  \<open>speed\<close> is \<open>params.speed\<close> at the time of the call. \<open>updateTile\<close> is the body of the loop
  on the pair \<open>(meshGroup[i], lineGroup[i])\<close>. Where one of the arrays has no entry \<open>i\<close> the
  code throws; the result is then \<open>None\<close>.
\<close>

definition updateTile :: "real \<Rightarrow> real \<Rightarrow> object3D \<times> object3D \<Rightarrow> object3D \<times> object3D" where
  "updateTile interval speed t =
     (let mesh = (fst t)\<lparr>position_z := position_z (fst t) + interval * speed\<rparr>;
          line = (snd t)\<lparr>position_z := position_z (snd t) + interval * speed\<rparr>
      in if position_z mesh \<ge> real terrainHeight
         then (mesh\<lparr>position_z := position_z mesh - real (numOfMeshSets * terrainHeight)\<rparr>,
               line\<lparr>position_z := position_z line - real (numOfMeshSets * terrainHeight)\<rparr>)
         else (mesh, line))"

function updateLoop :: "real \<Rightarrow> real \<Rightarrow> nat \<Rightarrow> app \<Rightarrow> app option" where
  "updateLoop interval speed i a =
     (if i < numOfMeshSets
      then (case (arr_get (meshGroup a) i, arr_get (lineGroup a) i) of
              (Some mesh, Some line) \<Rightarrow>
                updateLoop interval speed (i + 1)
                  (a\<lparr>meshGroup := (meshGroup a)[i := fst (updateTile interval speed (mesh, line))],
                     lineGroup := (lineGroup a)[i := snd (updateTile interval speed (mesh, line))]\<rparr>)
            | _ \<Rightarrow> None)
      else Some a)"
  by pat_completeness auto
termination
  by (relation "measure (\<lambda>(interval, speed, i, a). numOfMeshSets - i)") auto

declare updateLoop.simps [simp del]

definition updateScene :: "real \<Rightarrow> real \<Rightarrow> app \<Rightarrow> app option" where
  "updateScene interval speed a = updateLoop interval speed 0 a"

text \<open>
  \<open>n\<close> calls of \<open>updateScene\<close> in a row with the same interval and speed.
\<close>

fun ticks :: "nat \<Rightarrow> real \<Rightarrow> real \<Rightarrow> app \<Rightarrow> app option" where
  "ticks 0 interval speed a = Some a"
| "ticks (Suc n) interval speed a =
     (case updateScene interval speed a of None \<Rightarrow> None | Some a' \<Rightarrow> ticks n interval speed a')"

definition meshZs :: "app \<Rightarrow> real list" where
  "meshZs a = map position_z (meshGroup a)"

definition lineZs :: "app \<Rightarrow> real list" where
  "lineZs a = map position_z (lineGroup a)"

text \<open>
  The number of calls, among the next \<open>n\<close>, in which the condition of the \<open>if\<close> holds for
  tile \<open>i\<close>, that is in which the tile is shifted back.
\<close>

fun tileWraps :: "nat \<Rightarrow> real \<Rightarrow> real \<Rightarrow> nat \<Rightarrow> app \<Rightarrow> nat" where
  "tileWraps 0 interval speed i a = 0"
| "tileWraps (Suc n) interval speed i a =
     (case (arr_get (meshGroup a) i, updateScene interval speed a) of
        (Some mesh, Some a') \<Rightarrow>
          (if position_z mesh + interval * speed \<ge> real terrainHeight then 1 else 0)
            + tileWraps n interval speed i a'
      | _ \<Rightarrow> 0)"

text \<open>
  All tiles are there and every mesh has the z-position of its line. With both arrays of
  length \<open>numOfMeshSets\<close>, the equality of the two lists of z-positions says that
  \<open>meshGroup[i].position.z\<close> equals \<open>lineGroup[i].position.z\<close> for every \<open>i\<close>.
\<close>

definition tilesAligned :: "app \<Rightarrow> bool" where
  "tilesAligned a \<longleftrightarrow>
     length (meshGroup a) = numOfMeshSets \<and> length (lineGroup a) = numOfMeshSets
     \<and> meshZs a = lineZs a"

text \<open>
  For the proofs: what one call does to the z-position of a mesh, and the number of
  shifts of a mesh that starts at \<open>z\<close>.
\<close>

definition advance :: "real \<Rightarrow> real \<Rightarrow> real \<Rightarrow> real" where
  "advance interval speed z =
     (if z + interval * speed \<ge> real terrainHeight
      then z + interval * speed - real (numOfMeshSets * terrainHeight)
      else z + interval * speed)"

fun wrapsOf :: "nat \<Rightarrow> real \<Rightarrow> real \<Rightarrow> real \<Rightarrow> nat" where
  "wrapsOf 0 interval speed z = 0"
| "wrapsOf (Suc n) interval speed z =
     (if z + interval * speed \<ge> real terrainHeight then 1 else 0)
       + wrapsOf n interval speed (advance interval speed z)"

text \<open>
  A z-position lies ``within \<open>[0, cellsY)\<close> modulo \<open>numOfMeshSets * cellsY\<close>'' when its
  remainder modulo \<open>numOfMeshSets * terrainHeight\<close> is at least \<open>0\<close> and less than
  \<open>terrainHeight\<close>.
\<close>

definition withinFirstTileModulo :: "real \<Rightarrow> bool" where
  "withinFirstTileModulo z \<longleftrightarrow>
     (let m = real (numOfMeshSets * terrainHeight);
          r = z - m * of_int \<lfloor>z / m\<rfloor>
      in 0 \<le> r \<and> r < real terrainHeight)"

section \<open>Properties of the seam\<close>

lemma length_f32_set [simp]: "length (f32_set xs i v) = length xs"
  by (simp add: f32_set_def)

lemma arr_get_f32_set_other: "k \<noteq> i \<Longrightarrow> arr_get (f32_set xs i v) k = arr_get xs k"
  by (simp add: arr_get_def f32_set_def)

lemma arr_get_f32_set_same:
  "i < length xs \<Longrightarrow> arr_get (f32_set xs i v) i = Some v"
  by (simp add: arr_get_def f32_set_def)

lemma nth_f32_set_other: "k \<noteq> i \<Longrightarrow> f32_set xs i v ! k = xs ! k"
  by (simp add: f32_set_def)

lemma length_copyTopToBottom: "length (copyTopToBottom W H src index dst) = length dst"
proof (induction W H src index dst rule: copyTopToBottom.induct)
  case (1 W H src index dst)
  show ?case
  proof (cases "index \<le> W")
    case True
    with "1" show ?thesis by (subst copyTopToBottom.simps) simp
  next
    case False
    then show ?thesis by (simp add: copyTopToBottom.simps stitchLoop.simps stitchLoopSwapped.simps)
  qed
qed

lemma copyTopToBottom_frame:
  assumes "\<forall>j. index \<le> j \<and> j \<le> W \<longrightarrow> k \<noteq> ((W + 1) * H + j) * 3 + 2"
  shows "arr_get (copyTopToBottom W H src index dst) k = arr_get dst k"
  using assms
proof (induction W H src index dst rule: copyTopToBottom.induct)
  case (1 W H src index dst)
  show ?case
  proof (cases "index \<le> W")
    case True
    have here: "k \<noteq> ((W + 1) * H + index) * 3 + 2"
      using "1.prems" True by blast
    have later: "\<forall>j. index + 1 \<le> j \<and> j \<le> W \<longrightarrow> k \<noteq> ((W + 1) * H + j) * 3 + 2"
      using "1.prems" by auto
    from "1.IH" [OF True later] here True show ?thesis
      by (subst copyTopToBottom.simps) (simp add: arr_get_f32_set_other)
  next
    case False
    then show ?thesis by (simp add: copyTopToBottom.simps stitchLoop.simps stitchLoopSwapped.simps)
  qed
qed

lemma copyTopToBottom_written:
  assumes "index \<le> i" and "i \<le> W" and "((W + 1) * H + i) * 3 + 2 < length dst"
  shows "arr_get (copyTopToBottom W H src index dst) (((W + 1) * H + i) * 3 + 2)
       = Some (toFloat (arr_get src (i * 3 + 2)))"
  using assms
proof (induction W H src index dst rule: copyTopToBottom.induct)
  case (1 W H src index dst)
  have le: "index \<le> W" using "1.prems" by simp
  let ?dst = "f32_set dst (((W + 1) * H + index) * 3 + 2) (toFloat (arr_get src (index * 3 + 2)))"
  show ?case
  proof (cases "index = i")
    case True
    have "\<forall>j. index + 1 \<le> j \<and> j \<le> W \<longrightarrow> ((W + 1) * H + i) * 3 + 2 \<noteq> ((W + 1) * H + j) * 3 + 2"
      using True by auto
    from copyTopToBottom_frame [OF this, of src ?dst] True le "1.prems"(3) show ?thesis
      by (subst copyTopToBottom.simps) (simp add: arr_get_f32_set_same)
  next
    case False
    then have "index + 1 \<le> i" using "1.prems" by simp
    from "1.IH" [OF le this "1.prems"(2)] "1.prems"(3) le show ?thesis
      by (subst copyTopToBottom.simps) simp
  qed
qed

lemma copyTopToBottom_cong:
  assumes "\<forall>i. i \<le> W \<longrightarrow> arr_get s1 (i * 3 + 2) = arr_get s2 (i * 3 + 2)"
  shows "copyTopToBottom W H s1 index dst = copyTopToBottom W H s2 index dst"
  using assms
proof (induction W H s1 index dst rule: copyTopToBottom.induct)
  case (1 W H s1 index dst)
  show ?case
  proof (cases "index \<le> W")
    case True
    have "arr_get s1 (index * 3 + 2) = arr_get s2 (index * 3 + 2)"
      using "1.prems" True by blast
    with "1.IH" [OF True "1.prems"] True show ?thesis
      by (subst (1 2) copyTopToBottom.simps) simp
  next
    case False
    then show ?thesis by (simp add: copyTopToBottom.simps stitchLoop.simps stitchLoopSwapped.simps)
  qed
qed

lemma top_read_after_bottom_write:
  assumes "1 \<le> H" and "i \<le> W"
  shows "arr_get (f32_set g (((W + 1) * H + index) * 3 + 2) v) (i * 3 + 2) = arr_get g (i * 3 + 2)"
proof -
  have "(W + 1) * 1 \<le> (W + 1) * H" using assms(1) by (intro mult_le_mono2)
  with assms(2) have "i * 3 + 2 \<noteq> ((W + 1) * H + index) * 3 + 2" by simp
  then show ?thesis by (rule arr_get_f32_set_other)
qed

lemma stitchLoop_snapshot:
  assumes "1 \<le> H"
  shows "stitchLoop W H index g
       = (copyTopToBottom W H (snd g) index (fst g), copyTopToBottom W H (fst g) index (snd g))"
  using assms
proof (induction W H index g rule: stitchLoop.induct)
  case (1 W H index g)
  show ?case
  proof (cases "index \<le> W")
    case True
    let ?b = "((W + 1) * H + index) * 3 + 2"
    let ?g1 = "f32_set (snd g) ?b (toFloat (arr_get (fst g) (index * 3 + 2)))"
    let ?g0 = "f32_set (fst g) ?b (toFloat (arr_get (snd g) (index * 3 + 2)))"
    have rd: "arr_get ?g1 (index * 3 + 2) = arr_get (snd g) (index * 3 + 2)"
      using "1.prems" True by (rule top_read_after_bottom_write)
    have step: "stitchStep W H index g = (?g0, ?g1)"
      unfolding stitchStep_def Let_def by (simp only: fst_conv snd_conv rd)
    have c0: "copyTopToBottom W H ?g1 (index + 1) ?g0 = copyTopToBottom W H (snd g) (index + 1) ?g0"
      using "1.prems" by (intro copyTopToBottom_cong allI impI top_read_after_bottom_write)
    have c1: "copyTopToBottom W H ?g0 (index + 1) ?g1 = copyTopToBottom W H (fst g) (index + 1) ?g1"
      using "1.prems" by (intro copyTopToBottom_cong allI impI top_read_after_bottom_write)
    have "stitchLoop W H index g = stitchLoop W H (index + 1) (?g0, ?g1)"
      using True step by (subst stitchLoop.simps) simp
    also have "\<dots> = (copyTopToBottom W H ?g1 (index + 1) ?g0, copyTopToBottom W H ?g0 (index + 1) ?g1)"
      using "1.IH" [OF True "1.prems"] step by simp
    also have "\<dots> = (copyTopToBottom W H (snd g) index (fst g), copyTopToBottom W H (fst g) index (snd g))"
      using True c0 c1 by (subst (3 4) copyTopToBottom.simps) simp
    finally show ?thesis .
  next
    case False
    then show ?thesis by (simp add: copyTopToBottom.simps stitchLoop.simps stitchLoopSwapped.simps)
  qed
qed

lemma stitchLoopSwapped_snapshot:
  assumes "1 \<le> H"
  shows "stitchLoopSwapped W H index g
       = (copyTopToBottom W H (snd g) index (fst g), copyTopToBottom W H (fst g) index (snd g))"
  using assms
proof (induction W H index g rule: stitchLoopSwapped.induct)
  case (1 W H index g)
  show ?case
  proof (cases "index \<le> W")
    case True
    let ?b = "((W + 1) * H + index) * 3 + 2"
    let ?g1 = "f32_set (snd g) ?b (toFloat (arr_get (fst g) (index * 3 + 2)))"
    let ?g0 = "f32_set (fst g) ?b (toFloat (arr_get (snd g) (index * 3 + 2)))"
    have rd: "arr_get ?g0 (index * 3 + 2) = arr_get (fst g) (index * 3 + 2)"
      using "1.prems" True by (rule top_read_after_bottom_write)
    have step: "stitchStepSwapped W H index g = (?g0, ?g1)"
      unfolding stitchStepSwapped_def Let_def by (simp only: fst_conv snd_conv rd)
    have c0: "copyTopToBottom W H ?g1 (index + 1) ?g0 = copyTopToBottom W H (snd g) (index + 1) ?g0"
      using "1.prems" by (intro copyTopToBottom_cong allI impI top_read_after_bottom_write)
    have c1: "copyTopToBottom W H ?g0 (index + 1) ?g1 = copyTopToBottom W H (fst g) (index + 1) ?g1"
      using "1.prems" by (intro copyTopToBottom_cong allI impI top_read_after_bottom_write)
    have "stitchLoopSwapped W H index g = stitchLoopSwapped W H (index + 1) (?g0, ?g1)"
      using True step by (subst stitchLoopSwapped.simps) simp
    also have "\<dots> = (copyTopToBottom W H ?g1 (index + 1) ?g0, copyTopToBottom W H ?g0 (index + 1) ?g1)"
      using "1.IH" [OF True "1.prems"] step by simp
    also have "\<dots> = (copyTopToBottom W H (snd g) index (fst g), copyTopToBottom W H (fst g) index (snd g))"
      using True c0 c1 by (subst (3 4) copyTopToBottom.simps) simp
    finally show ?thesis .
  next
    case False
    then show ?thesis by (simp add: copyTopToBottom.simps stitchLoop.simps stitchLoopSwapped.simps)
  qed
qed

lemma copyTopToBottom_keeps_top:
  assumes "1 \<le> H" and "i \<le> W"
  shows "arr_get (copyTopToBottom W H src index dst) (i * 3 + 2) = arr_get dst (i * 3 + 2)"
proof -
  have "(W + 1) * 1 \<le> (W + 1) * H" using assms(1) by (intro mult_le_mono2)
  with assms(2) have "\<forall>j. index \<le> j \<and> j \<le> W \<longrightarrow> i * 3 + 2 \<noteq> ((W + 1) * H + j) * 3 + 2"
    by simp
  then show ?thesis by (rule copyTopToBottom_frame)
qed

lemma bottom_row_in_range:
  assumes "length g = 3 * (W + 1) * (H + 1)" and "i \<le> W"
  shows "((W + 1) * H + i) * 3 + 2 < length g"
proof -
  have "length g = ((W + 1) * H + (W + 1)) * 3"
    using assms(1) by (simp add: algebra_simps)
  with assms(2) show ?thesis by simp
qed

lemma top_row_in_range:
  assumes "length g = 3 * (W + 1) * (H + 1)" and "i \<le> W"
  shows "i * 3 + 2 < length g"
proof -
  have "length g = ((W + 1) * H + (W + 1)) * 3"
    using assms(1) by (simp add: algebra_simps)
  with assms(2) show ?thesis by simp
qed

lemma length_stitchStep:
  "length (fst (stitchStep W H index g)) = length (fst g) \<and>
   length (snd (stitchStep W H index g)) = length (snd g)"
  by (simp add: stitchStep_def Let_def)

lemma length_stitchLoop:
  "length (fst (stitchLoop W H index g)) = length (fst g) \<and>
   length (snd (stitchLoop W H index g)) = length (snd g)"
proof (induction W H index g rule: stitchLoop.induct)
  case (1 W H index g)
  show ?case
  proof (cases "index \<le> W")
    case True
    with "1" show ?thesis
      by (subst (1 2) stitchLoop.simps) (simp add: length_stitchStep)
  next
    case False
    then show ?thesis by (simp add: stitchLoop.simps)
  qed
qed

lemma stitchStep_frame:
  assumes "k \<noteq> ((W + 1) * H + index) * 3 + 2"
  shows "fst (stitchStep W H index g) ! k = fst g ! k \<and> snd (stitchStep W H index g) ! k = snd g ! k"
  using assms by (simp add: stitchStep_def Let_def nth_f32_set_other)

lemma stitchLoop_frame:
  assumes "\<forall>i. index \<le> i \<and> i \<le> W \<longrightarrow> k \<noteq> ((W + 1) * H + i) * 3 + 2"
  shows "fst (stitchLoop W H index g) ! k = fst g ! k \<and> snd (stitchLoop W H index g) ! k = snd g ! k"
  using assms
proof (induction W H index g rule: stitchLoop.induct)
  case (1 W H index g)
  show ?case
  proof (cases "index \<le> W")
    case True
    have here: "k \<noteq> ((W + 1) * H + index) * 3 + 2"
      using "1.prems" True by blast
    have later: "\<forall>i. index + 1 \<le> i \<and> i \<le> W \<longrightarrow> k \<noteq> ((W + 1) * H + i) * 3 + 2"
      using "1.prems" by auto
    have "fst (stitchLoop W H (index + 1) (stitchStep W H index g)) ! k = fst (stitchStep W H index g) ! k
        \<and> snd (stitchLoop W H (index + 1) (stitchStep W H index g)) ! k = snd (stitchStep W H index g) ! k"
      using "1.IH" [OF True later] .
    with stitchStep_frame [OF here, of g] True show ?thesis
      by (subst (1 2) stitchLoop.simps) simp
  next
    case False
    then show ?thesis by (simp add: stitchLoop.simps)
  qed
qed

text \<open>
  C9. The seam loop changes only the elevations of the bottom row of the two vertex
  buffers, the entries at \<open>(bottomOffset + i) * 3 + 2\<close> for \<open>i\<close> from \<open>0\<close> to \<open>W\<close>: the
  buffers keep their lengths, and every entry at any other index keeps its value, in
  both buffers.
\<close>

theorem stitch_changes_only_bottom_row_elevations:
  assumes "\<forall>i. i \<le> W \<longrightarrow> k \<noteq> ((W + 1) * H + i) * 3 + 2"
  shows "length (fst (stitch W H (g0, g1))) = length g0
       \<and> length (snd (stitch W H (g0, g1))) = length g1
       \<and> arr_get (fst (stitch W H (g0, g1))) k = arr_get g0 k
       \<and> arr_get (snd (stitch W H (g0, g1))) k = arr_get g1 k"
proof -
  have "\<forall>i. 0 \<le> i \<and> i \<le> W \<longrightarrow> k \<noteq> ((W + 1) * H + i) * 3 + 2"
    using assms by simp
  from stitchLoop_frame [OF this, of "(g0, g1)"] length_stitchLoop [of W H 0 "(g0, g1)"]
  show ?thesis by (simp add: stitch_def arr_get_def)
qed

text \<open>
  On two grids of one cell each (four vertices, twelve numbers), the entry at index \<open>5\<close>,
  the elevation of the second vertex of the top row, is not one the loop writes.
\<close>

theorem stitch_changes_only_bottom_row_elevations_witness:
  "arr_get (fst (stitch 1 1 (map Num [0, 1, 2, 3, 4, 5, 6, 7, 8, 9, 10, 11],
                                 map Num [20, 21, 22, 23, 24, 25, 26, 27, 28, 29, 30, 31]))) 5
       = Some (Num 5)
   \<and> arr_get (snd (stitch 1 1 (map Num [0, 1, 2, 3, 4, 5, 6, 7, 8, 9, 10, 11],
                                 map Num [20, 21, 22, 23, 24, 25, 26, 27, 28, 29, 30, 31]))) 5
       = Some (Num 25)"
proof -
  have h: "\<forall>i. i \<le> (1::nat) \<longrightarrow> (5::nat) \<noteq> ((1 + 1) * 1 + i) * 3 + 2"
    by simp
  have a: "arr_get (map Num [0, 1, 2, 3, 4, 5, 6, 7, 8, 9, 10, 11]) 5 = Some (Num 5)"
    by (simp add: arr_get_def)
  have b: "arr_get (map Num [20, 21, 22, 23, 24, 25, 26, 27, 28, 29, 30, 31]) 5 = Some (Num 25)"
    by (simp add: arr_get_def)
  from stitch_changes_only_bottom_row_elevations [OF h,
        of "map Num [0, 1, 2, 3, 4, 5, 6, 7, 8, 9, 10, 11]"
           "map Num [20, 21, 22, 23, 24, 25, 26, 27, 28, 29, 30, 31]"]
  show ?thesis
    by (simp only: a b)
qed

text \<open>
  C1. After the seam loop has run on two grids of \<open>W\<close> by \<open>H\<close> cells (\<open>H\<close> at least one,
  both buffers of \<open>3 * (W + 1) * (H + 1)\<close> numbers), for every column \<open>i\<close> from \<open>0\<close> to \<open>W\<close>
  the bottom-row elevation of the first grid is the top-row elevation the second grid had
  before the loop, and the bottom-row elevation of the second grid is the top-row
  elevation the first grid had before the loop.
\<close>

theorem stitch_bottom_rows_equal_prestitch_top_rows:
  assumes "1 \<le> H"
    and "length g0 = 3 * (W + 1) * (H + 1)"
    and "length g1 = 3 * (W + 1) * (H + 1)"
    and "i \<le> W"
  shows "elevation W (fst (stitch W H (g0, g1))) i H = elevation W g1 i 0
       \<and> elevation W (snd (stitch W H (g0, g1))) i H = elevation W g0 i 0"
proof -
  have st: "stitch W H (g0, g1) = (copyTopToBottom W H g1 0 g0, copyTopToBottom W H g0 0 g1)"
    using stitchLoop_snapshot [OF assms(1), of W 0 "(g0, g1)"] by (simp add: stitch_def)
  have b0: "((W + 1) * H + i) * 3 + 2 < length g0"
    using assms(2,4) by (rule bottom_row_in_range)
  have b1: "((W + 1) * H + i) * 3 + 2 < length g1"
    using assms(3,4) by (rule bottom_row_in_range)
  have t0: "i * 3 + 2 < length g0"
    using assms(2,4) by (rule top_row_in_range)
  have t1: "i * 3 + 2 < length g1"
    using assms(3,4) by (rule top_row_in_range)
  have w0: "arr_get (copyTopToBottom W H g1 0 g0) (((W + 1) * H + i) * 3 + 2)
          = Some (toFloat (arr_get g1 (i * 3 + 2)))"
    using assms(4) b0 by (intro copyTopToBottom_written) simp_all
  have w1: "arr_get (copyTopToBottom W H g0 0 g1) (((W + 1) * H + i) * 3 + 2)
          = Some (toFloat (arr_get g0 (i * 3 + 2)))"
    using assms(4) b1 by (intro copyTopToBottom_written) simp_all
  have r0: "Some (toFloat (arr_get g0 (i * 3 + 2))) = arr_get g0 (i * 3 + 2)"
    using t0 by (simp add: arr_get_def toFloat_def)
  have r1: "Some (toFloat (arr_get g1 (i * 3 + 2))) = arr_get g1 (i * 3 + 2)"
    using t1 by (simp add: arr_get_def toFloat_def)
  show ?thesis
    using w0 w1 r0 r1 by (simp add: st elevation_def)
qed

text \<open>
  Two grids of one cell each: the bottom row of each receives the top row of the other.
\<close>

theorem stitch_bottom_rows_equal_prestitch_top_rows_witness:
  "(1::nat) \<le> 1
   \<and> length (map Num [0, 1, 2, 3, 4, 5, 6, 7, 8, 9, 10, 11]) = 3 * (1 + 1) * (1 + 1)
   \<and> length (map Num [20, 21, 22, 23, 24, 25, 26, 27, 28, 29, 30, 31]) = 3 * (1 + 1) * (1 + 1)
   \<and> (1::nat) \<le> 1
   \<and> elevation 1 (fst (stitch 1 1 (map Num [0, 1, 2, 3, 4, 5, 6, 7, 8, 9, 10, 11],
                                     map Num [20, 21, 22, 23, 24, 25, 26, 27, 28, 29, 30, 31]))) 1 1
       = Some (Num 25)
   \<and> elevation 1 (snd (stitch 1 1 (map Num [0, 1, 2, 3, 4, 5, 6, 7, 8, 9, 10, 11],
                                     map Num [20, 21, 22, 23, 24, 25, 26, 27, 28, 29, 30, 31]))) 1 1
       = Some (Num 5)"
proof -
  have l0: "length (map Num [0, 1, 2, 3, 4, 5, 6, 7, 8, 9, 10, 11]) = 3 * (1 + 1) * (1 + 1)"
    by simp
  have l1: "length (map Num [20, 21, 22, 23, 24, 25, 26, 27, 28, 29, 30, 31]) = 3 * (1 + 1) * (1 + 1)"
    by simp
  have a: "elevation 1 (map Num [20, 21, 22, 23, 24, 25, 26, 27, 28, 29, 30, 31]) 1 0 = Some (Num 25)"
    by (simp add: elevation_def arr_get_def)
  have b: "elevation 1 (map Num [0, 1, 2, 3, 4, 5, 6, 7, 8, 9, 10, 11]) 1 0 = Some (Num 5)"
    by (simp add: elevation_def arr_get_def)
  from stitch_bottom_rows_equal_prestitch_top_rows [OF order_refl l0 l1 order_refl]
  show ?thesis
    using l0 l1 by (simp only: a b order_refl simp_thms)
qed

text \<open>
  C8. For \<open>H\<close> at least one, the two copies of the seam loop do not interfere. The loop
  as written gives, for each grid, its bottom row overwritten with the top row of the
  other grid as it was before the loop; the loop with the two assignments swapped gives
  the same pair of grids; and so does copying one whole row first and the other whole row
  afterwards, from the grid already written, in either order.
\<close>

theorem seam_copies_commute:
  assumes "1 \<le> H"
  shows "stitch W H (g0, g1) = (copyTopToBottom W H g1 0 g0, copyTopToBottom W H g0 0 g1)
       \<and> stitchSwapped W H (g0, g1) = stitch W H (g0, g1)
       \<and> copyTopToBottom W H (copyTopToBottom W H g0 0 g1) 0 g0 = copyTopToBottom W H g1 0 g0
       \<and> copyTopToBottom W H (copyTopToBottom W H g1 0 g0) 0 g1 = copyTopToBottom W H g0 0 g1"
proof -
  have st: "stitch W H (g0, g1) = (copyTopToBottom W H g1 0 g0, copyTopToBottom W H g0 0 g1)"
    using stitchLoop_snapshot [OF assms, of W 0 "(g0, g1)"] by (simp add: stitch_def)
  have sw: "stitchSwapped W H (g0, g1) = (copyTopToBottom W H g1 0 g0, copyTopToBottom W H g0 0 g1)"
    using stitchLoopSwapped_snapshot [OF assms, of W 0 "(g0, g1)"] by (simp add: stitchSwapped_def)
  have c0: "copyTopToBottom W H (copyTopToBottom W H g0 0 g1) 0 g0 = copyTopToBottom W H g1 0 g0"
    using assms by (intro copyTopToBottom_cong allI impI copyTopToBottom_keeps_top)
  have c1: "copyTopToBottom W H (copyTopToBottom W H g1 0 g0) 0 g1 = copyTopToBottom W H g0 0 g1"
    using assms by (intro copyTopToBottom_cong allI impI copyTopToBottom_keeps_top)
  show ?thesis
    using st sw c0 c1 by simp
qed

theorem seam_copies_commute_witness:
  "(1::nat) \<le> 1
   \<and> stitch 1 1 (map Num [0, 1, 2, 3, 4, 5, 6, 7, 8, 9, 10, 11],
                  map Num [20, 21, 22, 23, 24, 25, 26, 27, 28, 29, 30, 31])
       = (map Num [0, 1, 2, 3, 4, 5, 6, 7, 22, 9, 10, 25],
          map Num [20, 21, 22, 23, 24, 25, 26, 27, 2, 29, 30, 5])
   \<and> stitchSwapped 1 1 (map Num [0, 1, 2, 3, 4, 5, 6, 7, 8, 9, 10, 11],
                         map Num [20, 21, 22, 23, 24, 25, 26, 27, 28, 29, 30, 31])
       = (map Num [0, 1, 2, 3, 4, 5, 6, 7, 22, 9, 10, 25],
          map Num [20, 21, 22, 23, 24, 25, 26, 27, 2, 29, 30, 5])"
proof -
  have a: "copyTopToBottom 1 1 (map Num [20, 21, 22, 23, 24, 25, 26, 27, 28, 29, 30, 31]) 0
             (map Num [0, 1, 2, 3, 4, 5, 6, 7, 8, 9, 10, 11])
         = map Num [0, 1, 2, 3, 4, 5, 6, 7, 22, 9, 10, 25]"
    by (simp add: copyTopToBottom.simps f32_set_def arr_get_def toFloat_def)
  have b: "copyTopToBottom 1 1 (map Num [0, 1, 2, 3, 4, 5, 6, 7, 8, 9, 10, 11]) 0
             (map Num [20, 21, 22, 23, 24, 25, 26, 27, 28, 29, 30, 31])
         = map Num [20, 21, 22, 23, 24, 25, 26, 27, 2, 29, 30, 5]"
    by (simp add: copyTopToBottom.simps f32_set_def arr_get_def toFloat_def)
  from seam_copies_commute [OF order_refl, of 1
      "map Num [0, 1, 2, 3, 4, 5, 6, 7, 8, 9, 10, 11]"
      "map Num [20, 21, 22, 23, 24, 25, 26, 27, 28, 29, 30, 31]"]
  show ?thesis
    by (simp only: a b order_refl simp_thms)
qed

section \<open>Properties of the sampler\<close>

lemma Math_round_unit:
  assumes "0 \<le> u" and "u \<le> 1" and "0 \<le> n"
  shows "0 \<le> Math_round (u * real_of_int n) \<and> Math_round (u * real_of_int n) \<le> n"
proof -
  have nn: "0 \<le> real_of_int n" using assms(3) by simp
  have lo: "0 \<le> u * real_of_int n" using assms(1) nn by simp
  have hi: "u * real_of_int n \<le> real_of_int n"
    using mult_right_mono [OF assms(2) nn] by simp
  have "0 \<le> \<lfloor>u * real_of_int n + 1 / 2\<rfloor>" using lo by simp
  moreover have "\<lfloor>u * real_of_int n + 1 / 2\<rfloor> \<le> n"
    using hi by (simp add: floor_le_iff)
  ultimately show ?thesis by (simp add: Math_round_def)
qed



lemma index_in_range:
  assumes "0 \<le> x" and "x \<le> W - 1" and "0 \<le> y" and "y \<le> H - 1" and "1 \<le> (W::int)"
  shows "0 \<le> (y * W + x) * 4 \<and> (y * W + x) * 4 < 4 * W * H"
proof -
  have "y * W \<le> (H - 1) * W"
    using assms(4,5) by (intro mult_right_mono) simp_all
  then have "y * W + x \<le> H * W - 1"
    using assms(2) by (simp add: algebra_simps)
  moreover have "0 \<le> y * W" using assms(3,5) by simp
  ultimately show ?thesis using assms(1) by (simp add: algebra_simps)
qed

lemma arr_get_int_in_range:
  assumes "0 \<le> i \<and> i < int (length xs)"
  shows "arr_get_int xs i = Some (xs ! nat i)"
proof -
  have "nat i < length xs" using assms by linarith
  then show ?thesis using assms by (simp add: arr_get_int_def arr_get_def)
qed

lemma sample_coordinates:
  assumes "0 \<le> u" and "u \<le> 1" and "0 \<le> v" and "v \<le> 1"
    and "1 \<le> width img" and "1 \<le> height img"
  shows "0 \<le> Math_round (u * real_of_int (int (width img) - 1))"
    and "Math_round (u * real_of_int (int (width img) - 1)) \<le> int (width img) - 1"
    and "0 \<le> Math_round ((1 - v) * real_of_int (int (height img) - 1))"
    and "Math_round ((1 - v) * real_of_int (int (height img) - 1)) \<le> int (height img) - 1"
proof -
  have w: "0 \<le> int (width img) - 1" using assms(5) by simp
  have h: "0 \<le> int (height img) - 1" using assms(6) by simp
  have v0: "0 \<le> 1 - v" and v1: "1 - v \<le> 1" using assms(3,4) by simp_all
  from Math_round_unit [OF assms(1,2) w]
  show "0 \<le> Math_round (u * real_of_int (int (width img) - 1))"
    and "Math_round (u * real_of_int (int (width img) - 1)) \<le> int (width img) - 1"
    by simp_all
  from Math_round_unit [OF v0 v1 h]
  show "0 \<le> Math_round ((1 - v) * real_of_int (int (height img) - 1))"
    and "Math_round ((1 - v) * real_of_int (int (height img) - 1)) \<le> int (height img) - 1"
    by simp_all
qed


lemma sampleIndex_in_range:
  assumes "0 \<le> u" and "u \<le> 1" and "0 \<le> v" and "v \<le> 1"
    and "1 \<le> width img" and "1 \<le> height img"
    and "length (data img) = 4 * width img * height img"
  shows "0 \<le> sampleIndex img u v (int (width img)) (int (height img))
       \<and> sampleIndex img u v (int (width img)) (int (height img)) < int (length (data img))"
proof -
  have w: "1 \<le> int (width img)" using assms(5) by simp
  have len: "int (length (data img)) = 4 * int (width img) * int (height img)"
    using assms(7) by simp
  from index_in_range [OF sample_coordinates [OF assms(1-6)] w]
  show ?thesis
    unfolding sampleIndex_def Let_def len .
qed






text \<open>
  C4. For an image of at least one pixel with four bytes per pixel, whose dimensions are
  the ones passed to the sampler, and \<open>u\<close>, \<open>v\<close> between \<open>0\<close> and \<open>1\<close>, the sampler reads a red
  byte inside the data and returns \<open>red / 255 * 5\<close>, a number between \<open>0\<close> and
  \<open>displacementScale = 5\<close>.
\<close>

theorem sample_in_displacement_range:
  assumes "0 \<le> u" and "u \<le> 1" and "0 \<le> v" and "v \<le> 1"
    and "1 \<le> width img" and "1 \<le> height img"
    and "length (data img) = 4 * width img * height img"
  shows "\<exists>red. arr_get_int (data img) (sampleIndex img u v (int (width img)) (int (height img))) = Some red
           \<and> getZFromImageDataPoint img u v (int (width img)) (int (height img))
               = Num (real (unat red) / 255 * 5)
           \<and> 0 \<le> real (unat red) / 255 * 5
           \<and> real (unat red) / 255 * 5 \<le> displacementScale"
proof -
  from arr_get_int_in_range [OF sampleIndex_in_range [OF assms]]
  obtain red where red: "arr_get_int (data img) (sampleIndex img u v (int (width img)) (int (height img))) = Some red"
    by blast
  have "unat red < 2 ^ 8" using unsigned_less [of red, where ?'a = nat] by simp
  then have "unat red \<le> 255" by simp
  then have "real (unat red) \<le> real 255" by (rule of_nat_mono)
  then have le: "real (unat red) \<le> 255" by simp
  have z: "getZFromImageDataPoint img u v (int (width img)) (int (height img)) = Num (real (unat red) / 255 * 5)"
    by (simp add: getZFromImageDataPoint_def red displacementScale_def)
  have "0 \<le> real (unat red) / 255 * 5" by (simp del: of_nat_unat)
  moreover have "real (unat red) / 255 * 5 \<le> displacementScale"
    using le by (simp add: displacementScale_def del: of_nat_unat)
  ultimately show ?thesis using red z by blast
qed

theorem sample_in_displacement_range_witness:
  "(0::real) \<le> 1 / 2 \<and> (1 / 2::real) \<le> 1 \<and> (0::real) \<le> 1 / 4 \<and> (1 / 4::real) \<le> 1
   \<and> 1 \<le> width heightmap3x2 \<and> 1 \<le> height heightmap3x2
   \<and> length (data heightmap3x2) = 4 * width heightmap3x2 * height heightmap3x2
   \<and> arr_get_int (data heightmap3x2) (sampleIndex heightmap3x2 (1 / 2) (1 / 4) 3 2) = Some 51
   \<and> getZFromImageDataPoint heightmap3x2 (1 / 2) (1 / 4) 3 2 = Num 1
   \<and> (1::real) \<le> displacementScale"
proof -
  have u0: "(0::real) \<le> 1 / 2" and u1: "(1 / 2::real) \<le> 1"
    and v0: "(0::real) \<le> 1 / 4" and v1: "(1 / 4::real) \<le> 1"
    by simp_all
  have w: "1 \<le> width heightmap3x2" and h: "1 \<le> height heightmap3x2"
    by (simp_all add: heightmap3x2_def)
  have l: "length (data heightmap3x2) = 4 * width heightmap3x2 * height heightmap3x2"
    by (simp add: heightmap3x2_def)
  have dims: "int (width heightmap3x2) = 3" "int (height heightmap3x2) = 2"
    by (simp_all add: heightmap3x2_def)
  have rd: "arr_get_int (data heightmap3x2) (sampleIndex heightmap3x2 (1 / 2) (1 / 4) 3 2) = Some 51"
    by (simp add: sampleIndex_def Math_round_def heightmap3x2_def arr_get_int_def arr_get_def)
  from sample_in_displacement_range [OF u0 u1 v0 v1 w h l]
  have "getZFromImageDataPoint heightmap3x2 (1 / 2) (1 / 4) 3 2 = Num 1
      \<and> (1::real) \<le> displacementScale"
    by (simp add: dims rd)
  then show ?thesis
    using u0 u1 v0 v1 w h l rd by simp
qed

section \<open>Properties of the terrain build\<close>

lemma nth_f32_set_same: "i < length xs \<Longrightarrow> f32_set xs i v ! i = v"
  by (simp add: f32_set_def)

lemma length_displaceLoop:
  "length (displaceLoop hm i uvs index ps) = length ps"
proof (induction hm i uvs index ps rule: displaceLoop.induct)
  case (1 hm i uvs index ps)
  show ?case
  proof (cases "2 * index < length uvs")
    case True
    with "1" show ?thesis by (subst displaceLoop.simps) (simp add: displaceStep_def)
  next
    case False
    then show ?thesis by (simp add: displaceLoop.simps)
  qed
qed

lemma displaceLoop_frame:
  assumes "\<forall>n. index \<le> n \<longrightarrow> k \<noteq> n * 3 + 2"
  shows "displaceLoop hm i uvs index ps ! k = ps ! k"
  using assms
proof (induction hm i uvs index ps rule: displaceLoop.induct)
  case (1 hm i uvs index ps)
  show ?case
  proof (cases "2 * index < length uvs")
    case True
    have here: "k \<noteq> index * 3 + 2"
      using "1.prems" by blast
    have later: "\<forall>n. index + 1 \<le> n \<longrightarrow> k \<noteq> n * 3 + 2"
      using "1.prems" by auto
    from "1.IH" [OF True later] here True show ?thesis
      by (subst displaceLoop.simps) (simp add: displaceStep_def nth_f32_set_other)
  next
    case False
    then show ?thesis by (simp add: displaceLoop.simps)
  qed
qed

lemma displaceLoop_written:
  assumes "index \<le> n" and "2 * n + 1 < length uvs" and "n * 3 + 2 < length ps"
  shows "displaceLoop hm i uvs index ps ! (n * 3 + 2)
       = toFloat32 (getZFromImageDataPoint hm (if i = 0 then uvs ! (n * 2) else 1 - uvs ! (n * 2))
           (uvs ! (n * 2 + 1)) (int (width hm)) (int (height hm)))"
  using assms
proof (induction hm i uvs index ps rule: displaceLoop.induct)
  case (1 hm i uvs index ps)
  have run: "2 * index < length uvs" using "1.prems" by simp
  show ?case
  proof (cases "index = n")
    case True
    have later: "\<forall>m. index + 1 \<le> m \<longrightarrow> n * 3 + 2 \<noteq> m * 3 + 2"
      using True by auto
    have u: "arr_get uvs (n * 2) = Some (uvs ! (n * 2))"
      and v: "arr_get uvs (n * 2 + 1) = Some (uvs ! (n * 2 + 1))"
      using "1.prems"(2) by (simp_all add: arr_get_def)
    have "displaceStep hm i uvs n ps ! (n * 3 + 2)
        = toFloat32 (getZFromImageDataPoint hm (if i = 0 then uvs ! (n * 2) else 1 - uvs ! (n * 2))
            (uvs ! (n * 2 + 1)) (int (width hm)) (int (height hm)))"
      unfolding displaceStep_def u v using "1.prems"(3)
      by (simp only: prod.case option.case nth_f32_set_same)
    then show ?thesis
      using run True displaceLoop_frame [OF later, of hm i uvs "displaceStep hm i uvs n ps"]
      by (subst displaceLoop.simps) simp
  next
    case False
    then have "index + 1 \<le> n" using "1.prems"(1) by simp
    from "1.IH" [OF run this "1.prems"(2)] "1.prems"(3) run show ?thesis
      by (subst displaceLoop.simps) (simp add: displaceStep_def)
  qed
qed

lemma applyShear_keeps_elevation:
  assumes "n * 3 + 2 < length ps" and "ps ! (n * 3) = Num x" and "ps ! (n * 3 + 1) = Num y"
  shows "applyShear shearXY ps ! (n * 3 + 2) = ps ! (n * 3 + 2)"
proof -
  have d: "Suc (Suc (n * 3)) div 3 = n" and m: "Suc (Suc (n * 3)) mod 3 = 2"
    by presburger+
  have c: "\<not> length ps div 3 \<le> n"
    using assms(1) by presburger
  show ?thesis
    using assms c by (cases "ps ! (n * 3 + 2)") (simp_all add: applyShear_def d m)
qed

lemma length_applyShear: "length (applyShear shearXY ps) = length ps"
  by (simp add: applyShear_def)

lemma vertex_in_grid:
  assumes "x \<le> (W::nat)" and "y \<le> (H::nat)"
  shows "(W + 1) * y + x < (W + 1) * (H + 1)"
proof -
  have "(W + 1) * y \<le> (W + 1) * H" using assms(2) by (intro mult_le_mono2)
  with assms(1) show ?thesis by simp
qed

lemma half_of_double:
  "m * 2 div 2 = (m::nat)" "(m * 2 + 1) div 2 = m" "m * 2 mod 2 = 0" "(m * 2 + 1) mod 2 = 1"
  by presburger+

lemma planeUVs_vertex:
  assumes "x \<le> W" and "y \<le> H"
  shows "planeUVs W H ! (((W + 1) * y + x) * 2) = fround (real x / real W)"
    and "planeUVs W H ! (((W + 1) * y + x) * 2 + 1) = fround (1 - real y / real H)"
proof -
  let ?n = "(W + 1) * y + x"
  have n: "?n < (W + 1) * (H + 1)" using assms by (rule vertex_in_grid)
  have k0: "?n * 2 < 2 * ((W + 1) * (H + 1))" and k1: "?n * 2 + 1 < 2 * ((W + 1) * (H + 1))"
    using n by simp_all
  have col: "?n mod (W + 1) = x"
    using assms(1) by (simp only: mod_mult_self4) simp
  have row: "?n div (W + 1) = y"
    using assms(1) by (subst div_mult_self4) simp_all
  have d0: "?n * 2 div 2 = ?n" and d1: "(?n * 2 + 1) div 2 = ?n"
    and m0: "?n * 2 mod 2 = 0" and m1: "(?n * 2 + 1) mod 2 = 1"
    by (rule half_of_double)+
  show "planeUVs W H ! (?n * 2) = fround (real x / real W)"
    unfolding planeUVs_def using k0 by (simp only: nth_map length_upt nth_upt diff_zero add_0 Let_def d0 m0 col row) simp
  show "planeUVs W H ! (?n * 2 + 1) = fround (1 - real y / real H)"
    unfolding planeUVs_def using k1 by (simp only: nth_map length_upt nth_upt diff_zero add_0 Let_def d1 m1 col row) simp
qed

lemma planePositions_vertex:
  assumes "n < (W + 1) * (H + 1)"
  shows "\<exists>a. planePositions W H ! (n * 3) = Num a"
    and "\<exists>b. planePositions W H ! (n * 3 + 1) = Num b"
proof -
  have k0: "n * 3 < 3 * ((W + 1) * (H + 1))" and k1: "n * 3 + 1 < 3 * ((W + 1) * (H + 1))"
    using assms by simp_all
  show "\<exists>a. planePositions W H ! (n * 3) = Num a"
    using k0 by (simp add: planePositions_def Let_def)
  show "\<exists>b. planePositions W H ! (n * 3 + 1) = Num b"
    using k1 by (simp add: planePositions_def Let_def)
qed

lemma length_planeUVs: "length (planeUVs W H) = 2 * ((W + 1) * (H + 1))"
  by (simp add: planeUVs_def)

lemma length_planePositions: "length (planePositions W H) = 3 * ((W + 1) * (H + 1))"
  by (simp add: planePositions_def)

lemma build_elevation:
  assumes "x \<le> W" and "y \<le> H"
  shows "elevation W (buildGeometryPositions shearXY hm i W H) x y
       = Some (toFloat32 (getZFromImageDataPoint hm
                 (if i = 0 then fround (real x / real W) else 1 - fround (real x / real W))
                 (fround (1 - real y / real H)) (int (width hm)) (int (height hm))))"
proof -
  let ?n = "(W + 1) * y + x"
  let ?d = "displaceLoop hm i (planeUVs W H) 0 (planePositions W H)"
  have n: "?n < (W + 1) * (H + 1)" using assms by (rule vertex_in_grid)
  have ku: "2 * ?n + 1 < length (planeUVs W H)"
    using n by (simp add: length_planeUVs)
  have kp: "?n * 3 + 2 < length (planePositions W H)"
    using n by (simp add: length_planePositions)
  have kd: "?n * 3 + 2 < length ?d"
    using kp by (simp add: length_displaceLoop)
  have z: "?d ! (?n * 3 + 2)
         = toFloat32 (getZFromImageDataPoint hm
             (if i = 0 then fround (real x / real W) else 1 - fround (real x / real W))
             (fround (1 - real y / real H)) (int (width hm)) (int (height hm)))"
    using displaceLoop_written [OF le0 ku kp, of hm i] planeUVs_vertex [OF assms] by simp
  have "\<forall>m. 0 \<le> m \<longrightarrow> ?n * 3 \<noteq> m * 3 + 2" by presburger
  then have x0: "?d ! (?n * 3) = planePositions W H ! (?n * 3)"
    by (rule displaceLoop_frame)
  have "\<forall>m. 0 \<le> m \<longrightarrow> ?n * 3 + 1 \<noteq> m * 3 + 2" by presburger
  then have y0: "?d ! (?n * 3 + 1) = planePositions W H ! (?n * 3 + 1)"
    by (rule displaceLoop_frame)
  from planePositions_vertex [OF n] x0 y0
  obtain a b where "?d ! (?n * 3) = Num a" and "?d ! (?n * 3 + 1) = Num b"
    by auto
  from applyShear_keeps_elevation [OF kd this]
  have "applyShear shearXY ?d ! (?n * 3 + 2) = ?d ! (?n * 3 + 2)" .
  with z kd show ?thesis
    by (simp add: elevation_def buildGeometryPositions_def arr_get_def length_applyShear)
qed

lemma getZ_same_column:
  assumes "Math_round (u * real_of_int (cvWidth - 1)) = Math_round (u' * real_of_int (cvWidth - 1))"
  shows "getZFromImageDataPoint hm u v cvWidth cvHeight = getZFromImageDataPoint hm u' v cvWidth cvHeight"
  using assms by (simp add: getZFromImageDataPoint_def sampleIndex_def Let_def)

text \<open>
  The pixel column of a texture coordinate that differs from \<open>j / 30\<close> by a small \<open>d\<close>, on an
  image \<open>n + 1\<close> pixels wide: the rounding is that of \<open>j / 30\<close> unless \<open>j * n / 30\<close> lies
  exactly between two integers and \<open>d\<close> is negative.
\<close>

lemma Math_round_perturbed:
  fixes j n :: int and d :: real
  assumes "0 \<le> n" and "\<bar>d\<bar> * real_of_int n < 1 / 30"
  shows "Math_round ((real_of_int j / 30 + d) * real_of_int n)
       = (if (j * n + 15) mod 30 = 0 \<and> d < 0 then (j * n + 15) div 30 - 1 else (j * n + 15) div 30)"
proof -
  define m where "m = j * n + 15"
  define q where "q = m div 30"
  define r where "r = m mod 30"
  define t where "t = d * real_of_int n"
  have "m = 30 * q + r" by (simp add: q_def r_def)
  then have "real_of_int m = real_of_int (30 * q + r)" by simp
  then have mq: "real_of_int m = 30 * real_of_int q + real_of_int r" by simp
  have r0: "0 \<le> r" and r30: "r < 30" by (simp_all add: r_def)
  have expr: "(real_of_int j / 30 + d) * real_of_int n + 1 / 2 = real_of_int m / 30 + t"
    by (simp add: m_def t_def field_simps)
  have "\<bar>t\<bar> = \<bar>d\<bar> * real_of_int n"
    using assms(1) by (simp add: t_def abs_mult)
  then have t: "\<bar>t\<bar> < 1 / 30" using assms(2) by simp
  have val: "\<lfloor>real_of_int m / 30 + t\<rfloor> = (if r = 0 \<and> d < 0 then q - 1 else q)"
  proof (cases "r = 0")
    case True
    then have "m \<noteq> 15" using \<open>m = 30 * q + r\<close> by presburger
    then have "n \<noteq> 0" by (auto simp: m_def)
    then have npos: "0 < real_of_int n" using assms(1) by simp
    show ?thesis
    proof (cases "d < 0")
      case neg: True
      then have "t < 0" using npos by (simp add: t_def mult_neg_pos)
      then have "real_of_int (q - 1) \<le> real_of_int m / 30 + t"
        and "real_of_int m / 30 + t < real_of_int (q - 1) + 1"
        using t mq True by simp_all
      then have "\<lfloor>real_of_int m / 30 + t\<rfloor> = q - 1" by (rule floor_unique)
      then show ?thesis using True neg by simp
    next
      case nonneg: False
      then have "0 \<le> t" using npos by (simp add: t_def)
      then have "real_of_int q \<le> real_of_int m / 30 + t"
        and "real_of_int m / 30 + t < real_of_int q + 1"
        using t mq True by simp_all
      then have "\<lfloor>real_of_int m / 30 + t\<rfloor> = q" by (rule floor_unique)
      then show ?thesis using True nonneg by simp
    qed
  next
    case False
    then have "1 \<le> r" and "r \<le> 29" using r0 r30 by simp_all
    then have "1 \<le> real_of_int r" and "real_of_int r \<le> 29" by simp_all
    moreover have "- (1 / 30) < t" and "t < 1 / 30" using t by linarith+
    ultimately have "real_of_int q \<le> real_of_int m / 30 + t"
      and "real_of_int m / 30 + t < real_of_int q + 1"
      using mq by linarith+
    then have "\<lfloor>real_of_int m / 30 + t\<rfloor> = q" by (rule floor_unique)
    then show ?thesis using False by simp
  qed
  show ?thesis
    unfolding Math_round_def expr val by (simp add: q_def r_def m_def)
qed

lemma tie_needs_odd_column:
  fixes j n :: int
  assumes "(j * n + 15) mod 30 = 0"
  shows "odd j"
proof (rule ccontr)
  assume "\<not> odd j"
  then have "even (j * n)" by simp
  then have "odd (j * n + 15)" by simp
  moreover have "30 dvd j * n + 15" using assms by (simp add: dvd_eq_mod_eq_0)
  then have "even (j * n + 15)" by (rule dvd_trans [rotated]) simp
  ultimately show False by simp
qed

lemma mirrorSafe_columns: "list_all mirrorSafe [0..<31]"
  by code_simp

lemma mirrorSafe_column: "x \<le> 30 \<Longrightarrow> mirrorSafe x"
  using mirrorSafe_columns by (simp add: list_all_iff)

lemma small_error_times_width:
  fixes a :: real and n :: int
  assumes "\<bar>a\<bar> * 30000000 < 1" and "0 \<le> n" and "n < 1000000"
  shows "\<bar>a\<bar> * real_of_int n < 1 / 30"
proof -
  have "real_of_int n \<le> 1000000" using assms(3) by simp
  then have "\<bar>a\<bar> * real_of_int n \<le> \<bar>a\<bar> * 1000000"
    by (intro mult_left_mono) simp_all
  also have "\<dots> < 1 / 30" using assms(1) by simp
  finally show ?thesis .
qed

lemma mirrored_column_30:
  fixes n :: int
  assumes "x \<le> 30" and "0 \<le> n" and "n < 1000000"
  shows "Math_round ((1 - fround (real x / 30)) * real_of_int n)
       = Math_round (fround (real (30 - x) / 30) * real_of_int n)"
proof -
  define a where "a = fround (real x / 30) - real x / 30"
  define b where "b = fround (real (30 - x) / 30) - real (30 - x) / 30"
  define j where "j = int (30 - x)"
  have safe: "\<bar>a\<bar> * 30000000 < 1" "\<bar>b\<bar> * 30000000 < 1" "odd x \<longrightarrow> (a \<le> 0 \<longleftrightarrow> 0 \<le> b)"
    using mirrorSafe_column [OF assms(1)] by (simp_all add: mirrorSafe_def Let_def a_def b_def)
  have jr: "real_of_int j = 30 - real x"
    using assms(1) by (simp add: j_def of_nat_diff)
  have "real (30 - x) = 30 - real x"
    using assms(1) by (simp add: of_nat_diff)
  then have plain: "fround (real (30 - x) / 30) = real_of_int j / 30 + b"
    by (simp add: b_def jr)
  have mirrored: "1 - fround (real x / 30) = real_of_int j / 30 + (- a)"
    by (simp add: a_def jr field_simps)
  have ea: "\<bar>- a\<bar> * real_of_int n < 1 / 30"
    using small_error_times_width [OF safe(1) assms(2,3)] by simp
  have eb: "\<bar>b\<bar> * real_of_int n < 1 / 30"
    using safe(2) assms(2,3) by (rule small_error_times_width)
  have same_side: "(- a < 0) = (b < 0)" if tie: "(j * n + 15) mod 30 = 0"
  proof -
    have "odd j" using tie by (rule tie_needs_odd_column)
    then have "odd x" using assms(1) by (simp add: j_def)
    with safe(3) show ?thesis by auto
  qed
  show ?thesis
    unfolding plain mirrored Math_round_perturbed [OF assms(2) ea] Math_round_perturbed [OF assms(2) eb]
    using same_side by auto
qed

text \<open>
  C5, as stated, fails: on a grid of \<open>12\<close> cells across over a heightmap \<open>7\<close> pixels wide, the
  column \<open>1\<close> of the mirrored geometry samples \<open>1 - u\<close> for the stored \<open>u\<close> of \<open>1 / 12\<close>, which
  is above \<open>1 / 12\<close>, and reads the sixth pixel; the column \<open>11\<close> of the plain geometry samples
  the stored \<open>u\<close> of \<open>11 / 12\<close>, which is above \<open>11 / 12\<close>, and reads the seventh pixel.
\<close>

theorem mirrored_build_counterexample:
  "elevation 12 (buildGeometryPositions shearByHalf heightmap7x1 1 12 1) 1 0 = Some (Num 5)
   \<and> elevation 12 (buildGeometryPositions shearByHalf heightmap7x1 0 12 1) (12 - 1) 0 = Some (Num 0)"
proof -
  have m: "toFloat32 (getZFromImageDataPoint heightmap7x1 (1 - fround (1 / 12)) (fround 1) 7 1) = Num 5"
    by code_simp
  have p: "toFloat32 (getZFromImageDataPoint heightmap7x1 (fround (11 / 12)) (fround 1) 7 1) = Num 0"
    by code_simp
  have dims: "int (width heightmap7x1) = 7" "int (height heightmap7x1) = 1"
    by (simp_all add: heightmap7x1_def)
  have "elevation 12 (buildGeometryPositions shearByHalf heightmap7x1 1 12 1) 1 0 = Some (Num 5)"
    using build_elevation [of 1 12 0 1 shearByHalf heightmap7x1 1] m by (simp add: dims)
  moreover have "elevation 12 (buildGeometryPositions shearByHalf heightmap7x1 0 12 1) (12 - 1) 0 = Some (Num 0)"
    using build_elevation [of 11 12 0 1 shearByHalf heightmap7x1 0] p by (simp add: dims)
  ultimately show ?thesis by simp
qed

text \<open>
  C5, amended. For the same heightmap, between \<open>1\<close> and \<open>1000000\<close> pixels wide, and the
  grid of the scene, \<open>terrainWidth = 30\<close> cells across and any number \<open>H\<close> of at least one
  cells deep, the geometry built with \<open>i = 1\<close>, which samples \<open>1 - u\<close>, is the horizontal mirror
  image in elevation of the geometry built with \<open>i = 0\<close>: at every vertex \<open>(x, y)\<close> of the grid
  the elevation of the former is the elevation of the latter at \<open>(terrainWidth - x, y)\<close>.
  With \<open>30\<close> cells and at most \<open>1000000\<close> pixels the products of the texture coordinates with
  the width of the image are exact in doubles too.
\<close>

theorem mirrored_build_is_mirror_image_at_terrainWidth:
  assumes "1 \<le> H" and "x \<le> terrainWidth" and "y \<le> H"
    and "1 \<le> width hm" and "width hm \<le> 1000000"
  shows "elevation terrainWidth (buildGeometryPositions shearXY hm 1 terrainWidth H) x y
       = elevation terrainWidth (buildGeometryPositions shearXY hm 0 terrainWidth H) (terrainWidth - x) y"
proof -
  have x: "x \<le> 30" using assms(2) by (simp add: terrainWidth_def)
  have n: "0 \<le> int (width hm) - 1" "int (width hm) - 1 < 1000000"
    using assms(4,5) by simp_all
  have col: "Math_round ((1 - fround (real x / 30)) * real_of_int (int (width hm) - 1))
           = Math_round (fround (real (30 - x) / 30) * real_of_int (int (width hm) - 1))"
    using x n by (rule mirrored_column_30)
  have z: "getZFromImageDataPoint hm (1 - fround (real x / 30)) (fround (1 - real y / real H))
             (int (width hm)) (int (height hm))
         = getZFromImageDataPoint hm (fround (real (30 - x) / 30)) (fround (1 - real y / real H))
             (int (width hm)) (int (height hm))"
    using col by (rule getZ_same_column)
  have "30 - x \<le> (30::nat)" by simp
  from build_elevation [OF x assms(3), of shearXY hm 1] build_elevation [OF this assms(3), of shearXY hm 0] z
  show ?thesis by (simp add: terrainWidth_def)
qed

text \<open>
  On the grid of \<open>30\<close> cells across and one cell deep over the heightmap of seven pixels:
  the column \<open>5\<close> of the mirrored geometry and the column \<open>25\<close> of the plain one both read
  the sixth pixel.
\<close>

theorem mirrored_build_is_mirror_image_at_terrainWidth_witness:
  "(1::nat) \<le> 1 \<and> 5 \<le> terrainWidth \<and> (0::nat) \<le> 1
   \<and> 1 \<le> width heightmap7x1 \<and> width heightmap7x1 \<le> 1000000
   \<and> elevation terrainWidth (buildGeometryPositions shearByHalf heightmap7x1 1 terrainWidth 1) 5 0
       = Some (Num 5)
   \<and> elevation terrainWidth (buildGeometryPositions shearByHalf heightmap7x1 0 terrainWidth 1) 25 0
       = Some (Num 5)"
proof -
  have h1: "(1::nat) \<le> 1" and h2: "5 \<le> terrainWidth" and h3: "(0::nat) \<le> 1"
    by (simp_all add: terrainWidth_def)
  have w1: "1 \<le> width heightmap7x1" and w2: "width heightmap7x1 \<le> 1000000"
    by (simp_all add: heightmap7x1_def)
  have dims: "int (width heightmap7x1) = 7" "int (height heightmap7x1) = 1"
    by (simp_all add: heightmap7x1_def)
  have p: "toFloat32 (getZFromImageDataPoint heightmap7x1 (fround (25 / 30)) (fround 1) 7 1) = Num 5"
    by code_simp
  have plain: "elevation terrainWidth (buildGeometryPositions shearByHalf heightmap7x1 0 terrainWidth 1) 25 0
      = Some (Num 5)"
    using build_elevation [of 25 30 0 1 shearByHalf heightmap7x1 0] p
    by (simp add: dims terrainWidth_def)
  have d: "terrainWidth - 5 = 25" by (simp add: terrainWidth_def)
  from mirrored_build_is_mirror_image_at_terrainWidth [OF h1 h2 h3 w1 w2, of shearByHalf]
  have "elevation terrainWidth (buildGeometryPositions shearByHalf heightmap7x1 1 terrainWidth 1) 5 0
      = Some (Num 5)"
    by (simp only: d plain)
  then show ?thesis
    using h1 h2 h3 w1 w2 plain by simp
qed

section \<open>Properties of the grid lines\<close>

lemma mappedIndex_vertex:
  "mappedIndex W row col 0 = vertexIndex W row col"
  "mappedIndex W row col 1 = vertexIndex W row (col + 1)"
  "mappedIndex W row col 2 = vertexIndex W (row + 1) col"
  "mappedIndex W row col 3 = vertexIndex W (row + 1) (col + 1)"
  by (simp_all add: mappedIndex_def vertexIndex_def algebra_simps)

lemma pointLoop_even:
  "pointLoop W row True col 0 acc = acc @ cellPoints W row True col"
  by (simp add: pointLoop.simps cellPoints_def mappedIndex_vertex)

lemma pointLoop_odd:
  "pointLoop W row False col 3 acc = acc @ cellPoints W row False col"
  by (simp add: pointLoop.simps cellPoints_def mappedIndex_vertex)

lemma colLoop_even_step:
  "col < int W \<Longrightarrow>
   colLoop W row True col acc = colLoop W row True (col + 1) (acc @ cellPoints W row True col)"
  by (subst colLoop.simps) (simp add: pointLoop_even)

lemma colLoop_even_stop: "\<not> col < int W \<Longrightarrow> colLoop W row True col acc = acc"
  by (subst colLoop.simps) simp

lemma colLoop_odd_step:
  "0 \<le> col \<Longrightarrow>
   colLoop W row False col acc = colLoop W row False (col - 1) (acc @ cellPoints W row False col)"
  by (subst colLoop.simps) (simp add: pointLoop_odd)

lemma colLoop_odd_stop: "col < 0 \<Longrightarrow> colLoop W row False col acc = acc"
  by (subst colLoop.simps) simp

lemma colLoop_even:
  "n \<le> W \<Longrightarrow> colLoop W row True (int W - int n) acc = acc @ evenCells W row n"
proof (induction n arbitrary: acc)
  case 0
  then show ?case by (simp add: colLoop_even_stop)
next
  case (Suc n)
  have lt: "int W - int (Suc n) < int W" by simp
  have nxt: "int W - int (Suc n) + 1 = int W - int n" by simp
  have "n \<le> W" using Suc.prems by simp
  from Suc.IH [OF this] show ?case
    by (simp only: colLoop_even_step [OF lt] nxt evenCells.simps append_assoc)
qed

lemma colLoop_odd:
  "colLoop W row False (int n - 1) acc = acc @ oddCells W row n"
proof (induction n arbitrary: acc)
  case 0
  then show ?case by (simp add: colLoop_odd_stop)
next
  case (Suc n)
  have ge: "0 \<le> int n" by simp
  have cur: "int (Suc n) - 1 = int n" by simp
  show ?case
    unfolding cur by (simp only: colLoop_odd_step [OF ge] Suc.IH oddCells.simps append_assoc)
qed

lemma rowLoop_step:
  assumes "row < H"
  shows "rowLoop W H row acc = rowLoop W H (row + 1) (acc @ rowPath W row)"
proof (cases "row mod 2 = 0")
  case True
  have "colLoop W row True 0 acc = acc @ evenCells W row W"
    using colLoop_even [OF order_refl, of W row acc] by simp
  then show ?thesis
    using assms True by (subst rowLoop.simps) (simp add: rowPath_def)
next
  case False
  then show ?thesis
    using assms colLoop_odd [of W row W acc] by (subst rowLoop.simps) (simp add: rowPath_def)
qed

lemma rowLoop_stop: "\<not> row < H \<Longrightarrow> rowLoop W H row acc = acc"
  by (subst rowLoop.simps) simp

lemma rowLoop_rows:
  "n \<le> H \<Longrightarrow> rowLoop W H (H - n) acc = acc @ rowsCells W H n"
proof (induction n arbitrary: acc)
  case 0
  then show ?case by (simp add: rowLoop_stop)
next
  case (Suc n)
  have lt: "H - Suc n < H" using Suc.prems by simp
  have nxt: "H - Suc n + 1 = H - n" using Suc.prems by simp
  have "n \<le> H" using Suc.prems by simp
  from Suc.IH [OF this] show ?case
    by (simp only: rowLoop_step [OF lt] nxt rowsCells.simps append_assoc)
qed

lemma lineIndices_rows: "lineIndices W H = rowsCells W H H"
  using rowLoop_rows [where n = H and H = H and W = W and acc = "[]"] by (simp add: lineIndices_def)

lemma length_cellPoints: "length (cellPoints W row e col) = 4"
  by (simp add: cellPoints_def)

lemma length_evenCells: "length (evenCells W row n) = 4 * n"
  by (induction n) (simp_all add: length_cellPoints)

lemma length_oddCells: "length (oddCells W row n) = 4 * n"
  by (induction n) (simp_all add: length_cellPoints)

lemma length_rowPath: "length (rowPath W row) = 4 * W"
  by (simp add: rowPath_def length_evenCells length_oddCells)

lemma length_rowsCells: "length (rowsCells W H n) = 4 * W * n"
  by (induction n) (simp_all add: length_rowPath)

lemma length_three_pushes:
  "length (concat (map (\<lambda>m. [f m, g m, h m]) xs)) = 3 * length xs"
  by (induction xs) simp_all

lemma length_lineIndices: "length (lineIndices W H) = W * H * 4"
  by (simp add: lineIndices_rows length_rowsCells)

lemma vertexIndex_row_col:
  assumes "0 \<le> c" and "c \<le> int W"
  shows "vertexRow W (vertexIndex W r c) = int r" and "vertexCol W (vertexIndex W r c) = c"
  using assms by (simp_all add: vertexRow_def vertexCol_def vertexIndex_def)

lemma adjacent_vertices:
  assumes "0 \<le> c" and "c \<le> int W" and "0 \<le> c'" and "c' \<le> int W"
    and "\<bar>int r - int r'\<bar> \<le> 1" and "\<bar>c - c'\<bar> \<le> 1"
  shows "adjacent W (vertexIndex W r c) (vertexIndex W r' c')"
  using assms by (simp add: adjacent_def vertexIndex_row_col)

lemma chain_append:
  assumes "successively P xs" and "successively P ys"
    and "xs \<noteq> [] \<Longrightarrow> ys \<noteq> [] \<Longrightarrow> P (last xs) (hd ys)"
  shows "successively P (xs @ ys)"
  using assms by (auto simp: successively_append_iff)

lemma chain_cellPoints:
  assumes "0 \<le> col" and "col < int W"
  shows "successively (adjacent W) (cellPoints W row e col)"
  using assms by (cases e) (simp_all add: cellPoints_def adjacent_vertices)

lemma hd_last_cellPoints:
  "hd (cellPoints W row True col) = vertexIndex W row col"
  "last (cellPoints W row True col) = vertexIndex W (row + 1) (col + 1)"
  "hd (cellPoints W row False col) = vertexIndex W (row + 1) (col + 1)"
  "last (cellPoints W row False col) = vertexIndex W row col"
  "cellPoints W row e col \<noteq> []"
  by (simp_all add: cellPoints_def)

lemma chain_evenCells:
  assumes "n \<le> W"
  shows "successively (adjacent W) (evenCells W row n)
       \<and> (0 < n \<longrightarrow> hd (evenCells W row n) = vertexIndex W row (int W - int n)
                     \<and> last (evenCells W row n) = vertexIndex W (row + 1) (int W)
                     \<and> evenCells W row n \<noteq> [])"
  using assms
proof (induction n)
  case 0
  then show ?case by simp
next
  case (Suc n)
  let ?col = "int W - int (Suc n)"
  have col: "0 \<le> ?col" "?col < int W" using Suc.prems by simp_all
  have IH: "successively (adjacent W) (evenCells W row n)"
    and IH': "0 < n \<Longrightarrow> hd (evenCells W row n) = vertexIndex W row (int W - int n)"
    and IH'': "0 < n \<Longrightarrow> last (evenCells W row n) = vertexIndex W (row + 1) (int W)"
    using Suc.IH Suc.prems by simp_all
  have empty: "n = 0 \<Longrightarrow> evenCells W row n = []" by simp
  have link: "evenCells W row n \<noteq> [] \<Longrightarrow>
      adjacent W (last (cellPoints W row True ?col)) (hd (evenCells W row n))"
  proof -
    assume "evenCells W row n \<noteq> []"
    then have pos: "0 < n" using empty by (cases n) simp_all
    have "adjacent W (vertexIndex W (row + 1) (?col + 1)) (vertexIndex W row (int W - int n))"
      using Suc.prems by (intro adjacent_vertices) simp_all
    then show ?thesis by (simp only: hd_last_cellPoints IH' [OF pos])
  qed
  have chain: "successively (adjacent W) (evenCells W row (Suc n))"
    unfolding evenCells.simps
    using chain_cellPoints [OF col] IH link by (intro chain_append)
  have h: "hd (evenCells W row (Suc n)) = vertexIndex W row ?col"
    by (simp add: hd_append hd_last_cellPoints)
  have l: "last (evenCells W row (Suc n)) = vertexIndex W (row + 1) (int W)"
  proof (cases "n = 0")
    case True
    then show ?thesis by (simp add: hd_last_cellPoints)
  next
    case False
    then have "0 < n" by simp
    from IH'' [OF this] Suc.IH Suc.prems \<open>0 < n\<close> show ?thesis
      by (simp add: last_append)
  qed
  show ?case using chain h l by (simp add: hd_last_cellPoints)
qed

lemma chain_oddCells:
  assumes "n \<le> W"
  shows "successively (adjacent W) (oddCells W row n)
       \<and> (0 < n \<longrightarrow> hd (oddCells W row n) = vertexIndex W (row + 1) (int n)
                     \<and> last (oddCells W row n) = vertexIndex W row 0
                     \<and> oddCells W row n \<noteq> [])"
  using assms
proof (induction n)
  case 0
  then show ?case by simp
next
  case (Suc n)
  have col: "0 \<le> int n" "int n < int W" using Suc.prems by simp_all
  have IH: "successively (adjacent W) (oddCells W row n)"
    and IH': "0 < n \<Longrightarrow> hd (oddCells W row n) = vertexIndex W (row + 1) (int n)"
    and IH'': "0 < n \<Longrightarrow> last (oddCells W row n) = vertexIndex W row 0"
    using Suc.IH Suc.prems by simp_all
  have empty: "n = 0 \<Longrightarrow> oddCells W row n = []" by simp
  have link: "oddCells W row n \<noteq> [] \<Longrightarrow>
      adjacent W (last (cellPoints W row False (int n))) (hd (oddCells W row n))"
  proof -
    assume "oddCells W row n \<noteq> []"
    then have pos: "0 < n" using empty by (cases n) simp_all
    have "adjacent W (vertexIndex W row (int n)) (vertexIndex W (row + 1) (int n))"
      using Suc.prems by (intro adjacent_vertices) simp_all
    then show ?thesis by (simp only: hd_last_cellPoints IH' [OF pos])
  qed
  have chain: "successively (adjacent W) (oddCells W row (Suc n))"
    unfolding oddCells.simps
    using chain_cellPoints [OF col] IH link by (intro chain_append)
  have h: "hd (oddCells W row (Suc n)) = vertexIndex W (row + 1) (int (Suc n))"
    by (simp add: hd_append hd_last_cellPoints add.commute)
  have l: "last (oddCells W row (Suc n)) = vertexIndex W row 0"
  proof (cases "n = 0")
    case True
    then show ?thesis by (simp add: hd_last_cellPoints)
  next
    case False
    then have "0 < n" by simp
    from IH'' [OF this] Suc.IH Suc.prems \<open>0 < n\<close> show ?thesis
      by (simp add: last_append)
  qed
  show ?case using chain h l by (simp add: hd_last_cellPoints)
qed

lemma chain_rowPath:
  assumes "0 < W"
  shows "successively (adjacent W) (rowPath W row)"
    and "rowPath W row \<noteq> []"
    and "hd (rowPath W row) = (if row mod 2 = 0 then vertexIndex W row 0 else vertexIndex W (row + 1) (int W))"
    and "last (rowPath W row) = (if row mod 2 = 0 then vertexIndex W (row + 1) (int W) else vertexIndex W row 0)"
  using assms chain_evenCells [OF order_refl, of W row] chain_oddCells [OF order_refl, of W row]
  by (simp_all add: rowPath_def)

lemma rowPath_no_columns: "rowPath 0 row = []"
  by (simp add: rowPath_def)

lemma rowsCells_no_columns: "rowsCells 0 H n = []"
  by (induction n) (simp_all add: rowPath_no_columns)

lemma chain_rowsCells:
  assumes "0 < W" and "n \<le> H"
  shows "successively (adjacent W) (rowsCells W H n)
       \<and> (0 < n \<longrightarrow> hd (rowsCells W H n) = hd (rowPath W (H - n)) \<and> rowsCells W H n \<noteq> [])"
  using assms(2)
proof (induction n)
  case 0
  then show ?case by simp
next
  case (Suc n)
  let ?r = "H - Suc n"
  have IH: "successively (adjacent W) (rowsCells W H n)"
    and IH': "0 < n \<Longrightarrow> hd (rowsCells W H n) = hd (rowPath W (H - n))"
    using Suc.IH Suc.prems by simp_all
  have empty: "n = 0 \<Longrightarrow> rowsCells W H n = []" by simp
  have nxt: "H - n = ?r + 1" using Suc.prems by simp
  have link: "rowsCells W H n \<noteq> [] \<Longrightarrow> adjacent W (last (rowPath W ?r)) (hd (rowsCells W H n))"
  proof -
    assume "rowsCells W H n \<noteq> []"
    then have pos: "0 < n" using empty by (cases n) simp_all
    have hd_next: "hd (rowsCells W H n) = hd (rowPath W (?r + 1))"
      using IH' [OF pos] nxt by simp
    show ?thesis
    proof (cases "?r mod 2 = 0")
      case True
      then have odd: "(?r + 1) mod 2 \<noteq> 0" by presburger
      have "adjacent W (vertexIndex W (?r + 1) (int W)) (vertexIndex W (?r + 1 + 1) (int W))"
        by (intro adjacent_vertices) simp_all
      then show ?thesis
        using True odd by (simp only: hd_next chain_rowPath(3,4) [OF assms(1)] simp_thms if_True if_False)
    next
      case False
      then have even: "(?r + 1) mod 2 = 0" by presburger
      have "adjacent W (vertexIndex W ?r 0) (vertexIndex W (?r + 1) 0)"
        by (intro adjacent_vertices) simp_all
      then show ?thesis
        using False even by (simp only: hd_next chain_rowPath(3,4) [OF assms(1)] simp_thms if_True if_False)
    qed
  qed
  have chain: "successively (adjacent W) (rowsCells W H (Suc n))"
    unfolding rowsCells.simps
    using chain_rowPath(1) [OF assms(1)] IH link by (intro chain_append)
  have h: "hd (rowsCells W H (Suc n)) = hd (rowPath W ?r)"
    using chain_rowPath(2) [OF assms(1), of ?r] by (simp add: hd_append)
  show ?case
    using chain h chain_rowPath(2) [OF assms(1), of ?r] by simp
qed

lemma chain_lineIndices: "successively (adjacent W) (lineIndices W H)"
proof (cases "0 < W")
  case True
  from chain_rowsCells [OF True order_refl, of H] show ?thesis
    by (simp add: lineIndices_rows)
next
  case False
  then show ?thesis by (simp add: lineIndices_rows rowsCells_no_columns)
qed

lemma gridVertex_vertexIndex:
  assumes "r \<le> H" and "0 \<le> c" and "c \<le> int W"
  shows "gridVertex W H (vertexIndex W r c)"
proof -
  have "int r * (int W + 1) \<le> int H * (int W + 1)"
    using assms(1) by (intro mult_right_mono) simp_all
  then have "int r * (int W + 1) + c < (int W + 1) * (int H + 1)"
    using assms(3) by (simp add: algebra_simps)
  moreover have "0 \<le> int r * (int W + 1) + c"
    using assms(2) by simp
  ultimately show ?thesis by (simp add: gridVertex_def vertexIndex_def)
qed

lemma gridVertex_cellPoints:
  assumes "row < H" and "0 \<le> col" and "col < int W"
  shows "\<forall>m \<in> set (cellPoints W row e col). gridVertex W H m"
  using assms by (cases e) (simp_all add: cellPoints_def gridVertex_vertexIndex)

lemma gridVertex_evenCells:
  assumes "row < H" and "n \<le> W"
  shows "\<forall>m \<in> set (evenCells W row n). gridVertex W H m"
  using assms(2)
proof (induction n)
  case 0
  then show ?case by simp
next
  case (Suc n)
  have "0 \<le> int W - int (Suc n)" and "int W - int (Suc n) < int W"
    using Suc.prems by simp_all
  from gridVertex_cellPoints [OF assms(1) this, of True] Suc.IH Suc.prems show ?case
    by auto
qed

lemma gridVertex_oddCells:
  assumes "row < H" and "n \<le> W"
  shows "\<forall>m \<in> set (oddCells W row n). gridVertex W H m"
  using assms(2)
proof (induction n)
  case 0
  then show ?case by simp
next
  case (Suc n)
  have "0 \<le> int n" and "int n < int W"
    using Suc.prems by simp_all
  from gridVertex_cellPoints [OF assms(1) this, of False] Suc.IH Suc.prems show ?case
    by auto
qed

lemma gridVertex_rowPath:
  assumes "row < H"
  shows "\<forall>m \<in> set (rowPath W row). gridVertex W H m"
  using gridVertex_evenCells [OF assms order_refl] gridVertex_oddCells [OF assms order_refl]
  by (simp add: rowPath_def)

lemma gridVertex_rowsCells:
  assumes "n \<le> H"
  shows "\<forall>m \<in> set (rowsCells W H n). gridVertex W H m"
  using assms
proof (induction n)
  case 0
  then show ?case by simp
next
  case (Suc n)
  have "H - Suc n < H" using Suc.prems by simp
  from gridVertex_rowPath [OF this, of W] Suc.IH Suc.prems show ?case
    by auto
qed

lemma gridVertex_lineIndices:
  "m \<in> set (lineIndices W H) \<Longrightarrow> gridVertex W H m"
  using gridVertex_rowsCells [OF order_refl, of W H] by (simp add: lineIndices_rows)

text \<open>
  C6. For every grid of \<open>W\<close> by \<open>H\<close> cells the path has exactly \<open>W * H * 4\<close> points, that
  is \<open>3 * (W * H * 4)\<close> numbers in \<open>linePositions\<close>.
\<close>

theorem wireframe_path_length:
  "length (lineIndices W H) = W * H * 4 \<and> length (linePositions ps W H) = 3 * (W * H * 4)"
proof -
  have "length (linePositions ps W H) = 3 * length (lineIndices W H)"
    unfolding linePositions_def by (rule length_three_pushes)
  then show ?thesis by (simp add: length_lineIndices)
qed

text \<open>
  C2. Any two consecutive points of the path are vertices of the grid whose rows differ
  by at most one and whose columns differ by at most one. This holds for every grid of
  \<open>W\<close> by \<open>H\<close> cells, so also for the \<open>30\<close> by \<open>30\<close> cells of the scene.
\<close>

theorem wireframe_path_adjacent:
  assumes "Suc k < length (lineIndices W H)"
  shows "gridVertex W H (lineIndices W H ! k) \<and> gridVertex W H (lineIndices W H ! Suc k)
       \<and> \<bar>vertexRow W (lineIndices W H ! k) - vertexRow W (lineIndices W H ! Suc k)\<bar> \<le> 1
       \<and> \<bar>vertexCol W (lineIndices W H ! k) - vertexCol W (lineIndices W H ! Suc k)\<bar> \<le> 1"
proof -
  have "lineIndices W H ! k \<in> set (lineIndices W H)"
    using assms by simp
  then have "gridVertex W H (lineIndices W H ! k)"
    by (rule gridVertex_lineIndices)
  moreover have "lineIndices W H ! Suc k \<in> set (lineIndices W H)"
    using assms by simp
  then have "gridVertex W H (lineIndices W H ! Suc k)"
    by (rule gridVertex_lineIndices)
  moreover have "adjacent W (lineIndices W H ! k) (lineIndices W H ! Suc k)"
    using chain_lineIndices [of W H] assms by (simp add: successively_conv_nth)
  ultimately show ?thesis by (simp add: adjacent_def)
qed

text \<open>
  On a grid of two by two cells the fourth and fifth points of the path are the vertices
  \<open>4\<close> and \<open>1\<close>, the middle of the second row and the middle of the first row.
\<close>

theorem wireframe_path_adjacent_witness:
  "Suc 3 < length (lineIndices 2 2)
   \<and> lineIndices 2 2 ! 3 = 4 \<and> lineIndices 2 2 ! Suc 3 = 1
   \<and> gridVertex 2 2 4 \<and> gridVertex 2 2 1
   \<and> \<bar>vertexRow 2 4 - vertexRow 2 1\<bar> \<le> 1
   \<and> \<bar>vertexCol 2 4 - vertexCol 2 1\<bar> \<le> 1"
proof -
  have path: "lineIndices 2 2 = [0, 1, 3, 4, 1, 2, 4, 5, 8, 7, 5, 4, 7, 6, 4, 3]"
    by code_simp
  have len: "Suc 3 < length (lineIndices 2 2)"
    by (simp add: path)
  have a: "lineIndices 2 2 ! 3 = 4" and b: "lineIndices 2 2 ! Suc 3 = 1"
    by (simp_all add: path)
  from wireframe_path_adjacent [OF len] show ?thesis
    using len by (simp only: a b simp_thms)
qed

section \<open>Properties of the animation\<close>

lemma updateLoop_stop: "\<not> i < numOfMeshSets \<Longrightarrow> updateLoop interval speed i a = Some a"
  by (subst updateLoop.simps) simp

lemma updateLoop_step:
  assumes "i < numOfMeshSets" and "i < length (meshGroup a)" and "i < length (lineGroup a)"
  shows "updateLoop interval speed i a
       = updateLoop interval speed (i + 1)
           (a\<lparr>meshGroup := (meshGroup a)[i := fst (updateTile interval speed (meshGroup a ! i, lineGroup a ! i))],
              lineGroup := (lineGroup a)[i := snd (updateTile interval speed (meshGroup a ! i, lineGroup a ! i))]\<rparr>)"
  using assms by (subst updateLoop.simps) (simp add: arr_get_def)

lemma updateLoop_result:
  assumes "length (meshGroup a) = numOfMeshSets" and "length (lineGroup a) = numOfMeshSets"
  shows "\<exists>a'. updateLoop interval speed i a = Some a'
           \<and> length (meshGroup a') = numOfMeshSets \<and> length (lineGroup a') = numOfMeshSets
           \<and> (\<forall>j<numOfMeshSets.
                 meshGroup a' ! j = (if i \<le> j then fst (updateTile interval speed (meshGroup a ! j, lineGroup a ! j))
                                     else meshGroup a ! j)
               \<and> lineGroup a' ! j = (if i \<le> j then snd (updateTile interval speed (meshGroup a ! j, lineGroup a ! j))
                                     else lineGroup a ! j))"
  using assms
proof (induction "numOfMeshSets - i" arbitrary: i a)
  case 0
  then have "\<not> i < numOfMeshSets" by simp
  then show ?case using 0 by (auto simp: updateLoop_stop)
next
  case (Suc k)
  then have lt: "i < numOfMeshSets" by simp
  let ?t = "updateTile interval speed (meshGroup a ! i, lineGroup a ! i)"
  let ?a = "a\<lparr>meshGroup := (meshGroup a)[i := fst ?t], lineGroup := (lineGroup a)[i := snd ?t]\<rparr>"
  have step: "updateLoop interval speed i a = updateLoop interval speed (i + 1) ?a"
    using lt Suc.prems by (intro updateLoop_step) simp_all
  have k: "k = numOfMeshSets - (i + 1)" using Suc.hyps(2) by simp
  have l1: "length (meshGroup ?a) = numOfMeshSets" and l2: "length (lineGroup ?a) = numOfMeshSets"
    using Suc.prems by simp_all
  from Suc.hyps(1) [OF k l1 l2]
  obtain a' where a': "updateLoop interval speed (i + 1) ?a = Some a'"
    and len: "length (meshGroup a') = numOfMeshSets" "length (lineGroup a') = numOfMeshSets"
    and nth: "\<forall>j<numOfMeshSets.
                 meshGroup a' ! j = (if i + 1 \<le> j then fst (updateTile interval speed (meshGroup ?a ! j, lineGroup ?a ! j))
                                     else meshGroup ?a ! j)
               \<and> lineGroup a' ! j = (if i + 1 \<le> j then snd (updateTile interval speed (meshGroup ?a ! j, lineGroup ?a ! j))
                                     else lineGroup ?a ! j)"
    by blast
  have "\<forall>j<numOfMeshSets.
                 meshGroup a' ! j = (if i \<le> j then fst (updateTile interval speed (meshGroup a ! j, lineGroup a ! j))
                                     else meshGroup a ! j)
               \<and> lineGroup a' ! j = (if i \<le> j then snd (updateTile interval speed (meshGroup a ! j, lineGroup a ! j))
                                     else lineGroup a ! j)"
  proof (intro allI impI)
    fix j assume j: "j < numOfMeshSets"
    consider "j < i" | "j = i" | "i + 1 \<le> j" by linarith
    then show "meshGroup a' ! j = (if i \<le> j then fst (updateTile interval speed (meshGroup a ! j, lineGroup a ! j))
                                     else meshGroup a ! j)
               \<and> lineGroup a' ! j = (if i \<le> j then snd (updateTile interval speed (meshGroup a ! j, lineGroup a ! j))
                                     else lineGroup a ! j)"
    proof cases
      case 1
      then show ?thesis using nth j by simp
    next
      case 2
      then show ?thesis using nth j Suc.prems by simp
    next
      case 3
      then show ?thesis using nth j by simp
    qed
  qed
  with a' len step show ?case by simp
qed

lemma updateScene_result:
  assumes "length (meshGroup a) = numOfMeshSets" and "length (lineGroup a) = numOfMeshSets"
  shows "\<exists>a'. updateScene interval speed a = Some a'
           \<and> length (meshGroup a') = numOfMeshSets \<and> length (lineGroup a') = numOfMeshSets
           \<and> (\<forall>j<numOfMeshSets.
                 meshGroup a' ! j = fst (updateTile interval speed (meshGroup a ! j, lineGroup a ! j))
               \<and> lineGroup a' ! j = snd (updateTile interval speed (meshGroup a ! j, lineGroup a ! j)))"
  using updateLoop_result [OF assms, of interval speed 0] by (simp add: updateScene_def)

lemma updateTile_z:
  "position_z (fst (updateTile interval speed (mesh, line))) = advance interval speed (position_z mesh)"
  "position_z mesh = position_z line \<Longrightarrow>
   position_z (snd (updateTile interval speed (mesh, line))) = advance interval speed (position_z line)"
  by (simp_all add: updateTile_def advance_def Let_def)

lemma createTiles_zs:
  "meshZs createTiles = [0, - 30, - 60, - 90, - 120, - 150]"
  "lineZs createTiles = [0, - 30, - 60, - 90, - 120, - 150]"
  by (simp_all add: meshZs_def lineZs_def createTiles_def createLoop.simps numOfMeshSets_def
      terrainHeight_def Let_def)

lemma tilesAligned_createTiles: "tilesAligned createTiles"
proof -
  have "length (meshZs createTiles) = numOfMeshSets" and "length (lineZs createTiles) = numOfMeshSets"
    by (simp_all only: createTiles_zs) (simp_all add: numOfMeshSets_def)
  then have "length (meshGroup createTiles) = numOfMeshSets"
    and "length (lineGroup createTiles) = numOfMeshSets"
    by (simp_all add: meshZs_def lineZs_def)
  then show ?thesis by (simp add: tilesAligned_def createTiles_zs)
qed

lemma tilesAligned_nth:
  assumes "tilesAligned a" and "i < numOfMeshSets"
  shows "position_z (meshGroup a ! i) = position_z (lineGroup a ! i)"
proof -
  have lm: "i < length (meshGroup a)" and ll: "i < length (lineGroup a)"
    using assms by (simp_all add: tilesAligned_def)
  have "meshZs a ! i = lineZs a ! i"
    using assms(1) by (simp add: tilesAligned_def)
  then show ?thesis
    using lm ll by (simp add: meshZs_def lineZs_def)
qed

lemma updateScene_zs:
  assumes "tilesAligned a"
  shows "\<exists>a'. updateScene interval speed a = Some a' \<and> tilesAligned a'
           \<and> meshZs a' = map (advance interval speed) (meshZs a)"
proof -
  have lm: "length (meshGroup a) = numOfMeshSets" and ll: "length (lineGroup a) = numOfMeshSets"
    and eq: "meshZs a = lineZs a"
    using assms by (simp_all add: tilesAligned_def)
  have same: "position_z (meshGroup a ! j) = position_z (lineGroup a ! j)" if "j < numOfMeshSets" for j
  proof -
    have "meshZs a ! j = lineZs a ! j" using eq by simp
    then show ?thesis using that lm ll by (simp add: meshZs_def lineZs_def)
  qed
  from updateScene_result [OF lm ll, of interval speed]
  obtain a' where a': "updateScene interval speed a = Some a'"
    and len: "length (meshGroup a') = numOfMeshSets" "length (lineGroup a') = numOfMeshSets"
    and nth: "\<forall>j<numOfMeshSets.
                 meshGroup a' ! j = fst (updateTile interval speed (meshGroup a ! j, lineGroup a ! j))
               \<and> lineGroup a' ! j = snd (updateTile interval speed (meshGroup a ! j, lineGroup a ! j))"
    by blast
  have m: "meshZs a' = map (advance interval speed) (meshZs a)"
  proof (rule nth_equalityI)
    show "length (meshZs a') = length (map (advance interval speed) (meshZs a))"
      using len lm by (simp add: meshZs_def)
  next
    fix j assume "j < length (meshZs a')"
    then have j: "j < numOfMeshSets" using len by (simp add: meshZs_def)
    then show "meshZs a' ! j = map (advance interval speed) (meshZs a) ! j"
      using nth len lm by (simp add: meshZs_def updateTile_z)
  qed
  have l: "lineZs a' = map (advance interval speed) (lineZs a)"
  proof (rule nth_equalityI)
    show "length (lineZs a') = length (map (advance interval speed) (lineZs a))"
      using len ll by (simp add: lineZs_def)
  next
    fix j assume "j < length (lineZs a')"
    then have j: "j < numOfMeshSets" using len by (simp add: lineZs_def)
    then show "lineZs a' ! j = map (advance interval speed) (lineZs a) ! j"
      using nth len ll same [OF j] by (simp add: lineZs_def updateTile_z)
  qed
  have "tilesAligned a'"
    using len m l eq by (simp add: tilesAligned_def)
  with a' m show ?thesis by blast
qed

lemma ticks_zs:
  assumes "tilesAligned a"
  shows "\<exists>a'. ticks n interval speed a = Some a' \<and> tilesAligned a'
           \<and> meshZs a' = map ((advance interval speed) ^^ n) (meshZs a)"
  using assms
proof (induction n arbitrary: a)
  case 0
  then show ?case by simp
next
  case (Suc n)
  from updateScene_zs [OF Suc.prems, of interval speed]
  obtain a1 where a1: "updateScene interval speed a = Some a1" and al: "tilesAligned a1"
    and z1: "meshZs a1 = map (advance interval speed) (meshZs a)"
    by blast
  from Suc.IH [OF al]
  obtain a' where a': "ticks n interval speed a1 = Some a'" and al': "tilesAligned a'"
    and z': "meshZs a' = map ((advance interval speed) ^^ n) (meshZs a1)"
    by blast
  have "meshZs a' = map ((advance interval speed) ^^ Suc n) (meshZs a)"
    unfolding z' z1 by (simp add: funpow_swap1)
  with a1 a' al' show ?case by simp
qed

lemma tileWraps_wrapsOf:
  assumes "tilesAligned a" and "i < numOfMeshSets"
  shows "tileWraps n interval speed i a = wrapsOf n interval speed (meshZs a ! i)"
  using assms(1)
proof (induction n arbitrary: a)
  case 0
  then show ?case by simp
next
  case (Suc n)
  have lm: "length (meshGroup a) = numOfMeshSets"
    using Suc.prems by (simp add: tilesAligned_def)
  from updateScene_zs [OF Suc.prems, of interval speed]
  obtain a1 where a1: "updateScene interval speed a = Some a1" and al: "tilesAligned a1"
    and z1: "meshZs a1 = map (advance interval speed) (meshZs a)"
    by blast
  have zi: "meshZs a1 ! i = advance interval speed (meshZs a ! i)"
    using assms(2) lm by (simp add: z1) (simp add: meshZs_def)
  have cur: "arr_get (meshGroup a) i = Some (meshGroup a ! i)"
    using assms(2) lm by (simp add: arr_get_def)
  have "position_z (meshGroup a ! i) = meshZs a ! i"
    using assms(2) lm by (simp add: meshZs_def)
  with Suc.IH [OF al] zi show ?case
    by (simp add: cur a1)
qed

lemma advance_keeps_range:
  assumes "real terrainHeight - real (numOfMeshSets * terrainHeight) \<le> z" and "z < real terrainHeight"
  shows "real terrainHeight - real (numOfMeshSets * terrainHeight) \<le> advance 1 1 z
       \<and> advance 1 1 z < real terrainHeight"
  using assms by (simp add: advance_def numOfMeshSets_def terrainHeight_def)

lemma funpow_advance_keeps_range:
  assumes "real terrainHeight - real (numOfMeshSets * terrainHeight) \<le> z" and "z < real terrainHeight"
  shows "real terrainHeight - real (numOfMeshSets * terrainHeight) \<le> (advance 1 1 ^^ n) z
       \<and> (advance 1 1 ^^ n) z < real terrainHeight"
proof (induction n)
  case 0
  then show ?case using assms by simp
next
  case (Suc n)
  then show ?case using advance_keeps_range [of "(advance 1 1 ^^ n) z"] by simp
qed

lemma thirty_ticks_zs:
  "map (advance 1 1 ^^ 30) [0, - 30, - 60, - 90, - 120, - 150] = [- 150, 0, - 30, - 60, - 90, - 120]"
  by (simp add: eval_nat_numeral advance_def numOfMeshSets_def terrainHeight_def)

lemma thirty_ticks_wraps: "wrapsOf 30 1 1 0 = 1"
  by (simp add: eval_nat_numeral advance_def numOfMeshSets_def terrainHeight_def)

lemma meshZs_after_thirty_ticks:
  "map_option meshZs (ticks 30 1 1 createTiles) = Some [- 150, 0, - 30, - 60, - 90, - 120]"
proof -
  from ticks_zs [OF tilesAligned_createTiles, of 30 1 1]
  obtain a where "ticks 30 1 1 createTiles = Some a"
    and "meshZs a = map (advance 1 1 ^^ 30) (meshZs createTiles)"
    by blast
  then show ?thesis by (simp only: createTiles_zs thirty_ticks_zs option.map)
qed

lemma second_tile_never_wraps: "wrapsOf 30 1 1 (- 30) = 0"
  by (simp add: eval_nat_numeral advance_def numOfMeshSets_def terrainHeight_def)

text \<open>
  C7, as stated, fails: with speed \<open>1\<close> and interval \<open>1\<close>, after \<open>30\<close> calls the first tile is
  at \<open>- 150\<close>, and the remainder of \<open>- 150\<close> modulo \<open>180\<close> is \<open>30\<close>, which is not less than \<open>30\<close>.
  The second tile, which starts at \<open>- 30\<close>, is not shifted back at all in these calls.
\<close>

theorem tile_wraparound_counterexample:
  "map_option meshZs (ticks 30 1 1 createTiles) = Some [- 150, 0, - 30, - 60, - 90, - 120]
   \<and> \<not> withinFirstTileModulo (- 150)
   \<and> tileWraps 30 1 1 1 createTiles = 0"
proof -
  have "\<not> withinFirstTileModulo (- 150)"
    by (simp add: withinFirstTileModulo_def numOfMeshSets_def terrainHeight_def Let_def)
  moreover have "tileWraps 30 1 1 1 createTiles = wrapsOf 30 1 1 (meshZs createTiles ! 1)"
    by (intro tileWraps_wrapsOf tilesAligned_createTiles) (simp add: numOfMeshSets_def)
  then have "tileWraps 30 1 1 1 createTiles = 0"
    by (simp add: createTiles_zs second_tile_never_wraps)
  ultimately show ?thesis using meshZs_after_thirty_ticks by simp
qed

text \<open>
  C7, amended. With speed \<open>1\<close> and interval \<open>1\<close> (\<open>terrainHeight = 30\<close>, \<open>numOfMeshSets = 6\<close>),
  after \<open>30\<close> calls the tile that started at \<open>0\<close> has been shifted back exactly once and its
  z-position is its starting value minus \<open>numOfMeshSets * terrainHeight\<close> plus \<open>30\<close>; and
  after any number \<open>n\<close> of calls every tile's z-position is at least
  \<open>terrainHeight - numOfMeshSets * terrainHeight = - 150\<close> and less than \<open>terrainHeight = 30\<close>.
\<close>

theorem tile_wraparound_after_thirty_ticks:
  "(\<exists>a. ticks 30 1 1 createTiles = Some a
        \<and> position_z (meshGroup a ! 0)
            = position_z (meshGroup createTiles ! 0) - real (numOfMeshSets * terrainHeight) + 30
        \<and> tileWraps 30 1 1 0 createTiles = 1)
   \<and> (\<exists>a. ticks n 1 1 createTiles = Some a
        \<and> (\<forall>z \<in> set (meshZs a).
              real terrainHeight - real (numOfMeshSets * terrainHeight) \<le> z \<and> z < real terrainHeight))"
proof -
  from ticks_zs [OF tilesAligned_createTiles, of 30 1 1]
  obtain a where a: "ticks 30 1 1 createTiles = Some a" and al: "tilesAligned a"
    and z: "meshZs a = map (advance 1 1 ^^ 30) (meshZs createTiles)"
    by blast
  have z30: "meshZs a = [- 150, 0, - 30, - 60, - 90, - 120]"
    using z by (simp only: createTiles_zs thirty_ticks_zs)
  have len: "0 < length (meshGroup a)" and len0: "0 < length (meshGroup createTiles)"
    using al tilesAligned_createTiles by (simp_all add: tilesAligned_def numOfMeshSets_def)
  have "meshZs a ! 0 = - 150" by (simp add: z30)
  then have end_z: "position_z (meshGroup a ! 0) = - 150"
    using len by (simp add: meshZs_def)
  have "meshZs createTiles ! 0 = 0" by (simp add: createTiles_zs)
  then have start_z: "position_z (meshGroup createTiles ! 0) = 0"
    using len0 by (simp add: meshZs_def)
  have "tileWraps 30 1 1 0 createTiles = wrapsOf 30 1 1 (meshZs createTiles ! 0)"
    by (intro tileWraps_wrapsOf tilesAligned_createTiles) (simp add: numOfMeshSets_def)
  then have wraps: "tileWraps 30 1 1 0 createTiles = 1"
    by (simp add: createTiles_zs thirty_ticks_wraps)
  have first: "\<exists>a. ticks 30 1 1 createTiles = Some a
        \<and> position_z (meshGroup a ! 0)
            = position_z (meshGroup createTiles ! 0) - real (numOfMeshSets * terrainHeight) + 30
        \<and> tileWraps 30 1 1 0 createTiles = 1"
    using a end_z start_z wraps by (simp add: numOfMeshSets_def terrainHeight_def)
  from ticks_zs [OF tilesAligned_createTiles, of n 1 1]
  obtain b where b: "ticks n 1 1 createTiles = Some b"
    and zb: "meshZs b = map (advance 1 1 ^^ n) (meshZs createTiles)"
    by blast
  have start: "\<forall>z \<in> set (meshZs createTiles).
      real terrainHeight - real (numOfMeshSets * terrainHeight) \<le> z \<and> z < real terrainHeight"
    by (simp add: createTiles_zs numOfMeshSets_def terrainHeight_def)
  have "\<forall>z \<in> set (meshZs b).
      real terrainHeight - real (numOfMeshSets * terrainHeight) \<le> z \<and> z < real terrainHeight"
    unfolding zb using start funpow_advance_keeps_range by auto
  with b first show ?thesis by blast
qed

theorem tile_wraparound_after_thirty_ticks_witness:
  "map_option meshZs (ticks 30 1 1 createTiles) = Some [- 150, 0, - 30, - 60, - 90, - 120]
   \<and> real terrainHeight - real (numOfMeshSets * terrainHeight) \<le> - 150
   \<and> (- 150 :: real) < real terrainHeight"
proof -
  from tile_wraparound_after_thirty_ticks [of 30]
  obtain a where a: "ticks 30 1 1 createTiles = Some a"
    and r: "\<forall>z \<in> set (meshZs a).
              real terrainHeight - real (numOfMeshSets * terrainHeight) \<le> z \<and> z < real terrainHeight"
    by blast
  have z: "meshZs a = [- 150, 0, - 30, - 60, - 90, - 120]"
    using meshZs_after_thirty_ticks a by simp
  have "- 150 \<in> set (meshZs a)" by (simp add: z)
  with r have "real terrainHeight - real (numOfMeshSets * terrainHeight) \<le> - 150
      \<and> (- 150 :: real) < real terrainHeight"
    by blast
  with meshZs_after_thirty_ticks show ?thesis by simp
qed

text \<open>
  C10. The tiles are created with every mesh at the position of its line, and a call of
  \<open>updateScene\<close> on tiles where every mesh has the z-position of its line succeeds and
  leaves tiles where every mesh has the z-position of its line, whatever the interval and
  the speed: for every index \<open>i\<close>, \<open>meshGroup[i].position.z = lineGroup[i].position.z\<close> before
  and after.
\<close>

theorem mesh_and_line_share_z:
  "tilesAligned createTiles \<and> meshGroup createTiles = lineGroup createTiles
   \<and> (tilesAligned a \<longrightarrow>
        (\<forall>i<numOfMeshSets. position_z (meshGroup a ! i) = position_z (lineGroup a ! i))
        \<and> (\<exists>a'. updateScene interval speed a = Some a' \<and> tilesAligned a'
              \<and> (\<forall>i<numOfMeshSets. position_z (meshGroup a' ! i) = position_z (lineGroup a' ! i))))"
proof -
  have "meshGroup createTiles = lineGroup createTiles"
    by (simp add: createTiles_def createLoop.simps numOfMeshSets_def Let_def)
  moreover have "tilesAligned a \<longrightarrow>
        (\<forall>i<numOfMeshSets. position_z (meshGroup a ! i) = position_z (lineGroup a ! i))
        \<and> (\<exists>a'. updateScene interval speed a = Some a' \<and> tilesAligned a'
              \<and> (\<forall>i<numOfMeshSets. position_z (meshGroup a' ! i) = position_z (lineGroup a' ! i)))"
    using updateScene_zs [of a interval speed] tilesAligned_nth by blast
  ultimately show ?thesis using tilesAligned_createTiles by simp
qed

theorem mesh_and_line_share_z_witness:
  "tilesAligned createTiles
   \<and> map_option meshZs (updateScene 1 1 createTiles) = Some [1, - 29, - 59, - 89, - 119, - 149]
   \<and> map_option lineZs (updateScene 1 1 createTiles) = Some [1, - 29, - 59, - 89, - 119, - 149]"
proof -
  from mesh_and_line_share_z [of createTiles 1 1]
  obtain a' where al: "tilesAligned createTiles" and a': "updateScene 1 1 createTiles = Some a'"
    and al': "tilesAligned a'"
    by blast
  from updateScene_zs [OF al, of 1 1] a'
  have "meshZs a' = map (advance 1 1) (meshZs createTiles)" by simp
  then have m: "meshZs a' = [1, - 29, - 59, - 89, - 119, - 149]"
    by (simp add: createTiles_zs advance_def numOfMeshSets_def terrainHeight_def)
  have "lineZs a' = meshZs a'" using al' by (simp add: tilesAligned_def)
  with m a' al show ?thesis by simp
qed

end
